theory Spec2Isabelle
  imports Complex_Main
begin

section \<open>Python strings\<close>

text \<open>
  A Python \<open>str\<close> is modelled as a \<open>string\<close>; one \<open>char\<close> stands for one code point
  below 256. The functions below are the \<open>str\<close> methods that \<open>nlf/converter.py\<close> calls.
\<close>

text \<open>\<open>sep.join(parts)\<close>.\<close>

fun str_join :: "string \<Rightarrow> string list \<Rightarrow> string" where
  "str_join sep [] = []"
| "str_join sep [p] = p"
| "str_join sep (p # q # ps) = p @ sep @ str_join sep (q # ps)"

text \<open>\<open>s.startswith(prefix)\<close>.\<close>

definition str_startswith :: "string \<Rightarrow> string \<Rightarrow> bool" where
  "str_startswith s pre = (take (length pre) s = pre)"

text \<open>\<open>sub in s\<close>.\<close>

fun str_contains :: "string \<Rightarrow> string \<Rightarrow> bool" where
  "str_contains [] sub = (sub = [])"
| "str_contains (c # cs) sub = (str_startswith (c # cs) sub \<or> str_contains cs sub)"

text \<open>
  \<open>c.isspace()\<close> for a code point below 256: the characters 9 to 13, 28 to 32, 133
  and 160.
\<close>

definition isspace :: "char \<Rightarrow> bool" where
  "isspace c = (of_char c \<in> set [9, 10, 11, 12, 13, 28, 29, 30, 31, 32, 133, 160 :: nat])"

text \<open>
  \<open>s.strip(chars)\<close> removes from both ends the characters of a set; \<open>s.strip()\<close> removes
  white space.
\<close>

definition strip_where :: "(char \<Rightarrow> bool) \<Rightarrow> string \<Rightarrow> string" where
  "strip_where P s = rev (dropWhile P (rev (dropWhile P s)))"

definition str_strip :: "string \<Rightarrow> string" where
  "str_strip s = strip_where isspace s"

definition str_strip_chars :: "string \<Rightarrow> string \<Rightarrow> string" where
  "str_strip_chars s chars = strip_where (\<lambda>c. c \<in> set chars) s"

section \<open>Exceptions\<close>

text \<open>
  An exception is a value. \<open>IndexError\<close> and \<open>ValueError\<close> are raised by the code of
  \<open>nlf/converter.py\<close> itself (an index out of range, the \<open>raise ValueError\<close> of
  \<open>nl_to_orm\<close>, an empty separator); \<open>Raised e\<close> is an exception \<open>e\<close> raised inside a call
  of a library (\<open>str.format\<close>, \<open>ollama.chat\<close>, \<open>ast.parse\<close>) that the code does not catch
  and that reaches the caller as it is.
\<close>

datatype 'e error = IndexError | ValueError string | Raised 'e

text \<open>\<open>xs[i]\<close> for \<open>i \<ge> 0\<close>.\<close>

definition list_index :: "'a list \<Rightarrow> nat \<Rightarrow> 'e error + 'a" where
  "list_index xs i = (if i < length xs then Inr (xs ! i) else Inl IndexError)"

text \<open>
  \<open>s.split(sep)\<close>: the pieces of \<open>s\<close> between the occurrences of \<open>sep\<close>, found from the
  left and not overlapping. An empty separator raises \<open>ValueError\<close>.
\<close>

function split_pieces :: "string \<Rightarrow> string \<Rightarrow> string list" where
  "split_pieces [] sep = [[]]"
| "split_pieces (c # cs) sep =
     (if sep \<noteq> [] \<and> str_startswith (c # cs) sep
      then [] # split_pieces (drop (length sep) (c # cs)) sep
      else (case split_pieces cs sep of
              [] \<Rightarrow> [[c]]
            | p # ps \<Rightarrow> (c # p) # ps))"
  by pat_completeness auto
termination
  by (relation "measure (\<lambda>(s, sep). length s)") auto

definition str_split :: "string \<Rightarrow> string \<Rightarrow> 'e error + string list" where
  "str_split s sep =
     (if sep = [] then Inl (ValueError ''empty separator'') else Inr (split_pieces s sep))"

section \<open>Model definitions\<close>

text \<open>
  A model is a Python class; \<open>'m\<close> is the type of the model classes of the running
  program, compared by identity, and there are finitely many of them. What the code reads
  of a class is its \<open>__name__\<close> and the list \<open>_meta.get_fields(include_hidden=True)\<close>;
  the function \<open>meta\<close> that the operations below take gives both for every class.

  What the code reads of a field: \<open>field.name\<close>; whether
  \<open>isinstance(field, GenericForeignKey)\<close>; the model \<open>field.related_model\<close>, where \<open>None\<close>
  stands both for a field with no such attribute and for one whose attribute is false;
  and \<open>field.get_internal_type()\<close>.
\<close>

record 'm field =
  field_name :: string
  is_generic_foreign_key :: bool
  related_model :: "'m option"
  internal_type :: string

record 'm model_meta =
  model_name :: string
  get_fields :: "'m field list"

section \<open>The schema describer: \<open>get_models_schema\<close>\<close>

text \<open>The two variables that the nested function \<open>add_model_schema\<close> updates.\<close>

record 'm schema_state =
  schema_parts :: "string list"
  visited_models :: "'m set"

text \<open>\<open>schema_parts.append(line)\<close>.\<close>

definition append_part :: "string \<Rightarrow> 'm schema_state \<Rightarrow> 'm schema_state" where
  "append_part line st = st\<lparr>schema_parts := schema_parts st @ [line]\<rparr>"

text \<open>The four formatted lines.\<close>

definition model_line :: "'m model_meta \<Rightarrow> string" where
  "model_line mm = ''Model: '' @ model_name mm"

definition generic_line :: "'m field \<Rightarrow> string" where
  "generic_line f =
     ''  - '' @ field_name f @
     '': GenericForeignKey (references any model via ContentType, use '' @
     field_name f @ ''__field_name for filtering)''"

definition relation_line :: "('m \<Rightarrow> 'm model_meta) \<Rightarrow> 'm field \<Rightarrow> 'm \<Rightarrow> string" where
  "relation_line meta f r =
     ''  - '' @ field_name f @ '': ForeignKey to '' @ model_name (meta r) @
     '' (access via '' @ field_name f @ ''__field_name)''"

definition plain_line :: "'m field \<Rightarrow> string" where
  "plain_line f = ''  - '' @ field_name f @ '': '' @ internal_type f"

text \<open>
  \<open>add_model_schema\<close>, and its loop over the fields of the model as \<open>add_fields\<close>. The
  recursion is nested: the fields after a relation are handled in the state that the
  recursive call returns.
\<close>

function add_model_schema ::
    "('m::finite \<Rightarrow> 'm model_meta) \<Rightarrow> 'm \<Rightarrow> 'm schema_state \<Rightarrow> 'm schema_state"
  and add_fields ::
    "('m \<Rightarrow> 'm model_meta) \<Rightarrow> 'm field list \<Rightarrow> 'm schema_state \<Rightarrow> 'm schema_state"
where
  "add_model_schema meta model st =
     (if model \<in> visited_models st then st
      else append_part ''''
             (add_fields meta (get_fields (meta model))
                (append_part (model_line (meta model))
                   (st\<lparr>visited_models := insert model (visited_models st)\<rparr>))))"
| "add_fields meta [] st = st"
| "add_fields meta (f # rest) st =
     (if is_generic_foreign_key f
      then add_fields meta rest (append_part (generic_line f) st)
      else case related_model f of
             Some r \<Rightarrow>
               add_fields meta rest
                 (add_model_schema meta r (append_part (relation_line meta f r) st))
           | None \<Rightarrow> add_fields meta rest (append_part (plain_line f) st))"
  by pat_completeness auto

lemma visited_append_part [simp]: "visited_models (append_part l st) = visited_models st"
  by (simp add: append_part_def)

lemma parts_append_part [simp]: "schema_parts (append_part l st) = schema_parts st @ [l]"
  by (simp add: append_part_def)

text \<open>
  Where a call returns, it has only added to the visited set. This is what the nested
  call needs for the termination proof.
\<close>

lemma visited_grows_dom:
  "add_model_schema_add_fields_dom (Inl (meta, m, st)) \<Longrightarrow>
     visited_models st \<subseteq> visited_models (add_model_schema meta m st)"
  "add_model_schema_add_fields_dom (Inr (meta, fs, st)) \<Longrightarrow>
     visited_models st \<subseteq> visited_models (add_fields meta fs st)"
proof (induction meta m st and meta fs st rule: add_model_schema_add_fields.pinduct)
  case (1 meta model st)
  then show ?case by (auto simp: add_model_schema.psimps)
next
  case (2 meta st)
  then show ?case by (simp add: add_fields.psimps)
next
  case (3 meta f rest st)
  then show ?case
    by (simp add: add_fields.psimps split: option.splits) blast
qed

text \<open>
  Every call terminates: a call of \<open>add_model_schema\<close> that goes on to the fields has
  put one more model into the visited set, of which there are finitely many, and the
  loop over the fields goes down the list.
\<close>

lemma add_model_schema_terminates: "All add_model_schema_add_fields_dom"
proof (relation
    "(\<lambda>x. card (- visited_models
                     (case x of Inl (_, _, st) \<Rightarrow> st | Inr (_, _, st) \<Rightarrow> st)))
       <*mlex*> measure (\<lambda>x. case x of Inl _ \<Rightarrow> 0 | Inr (_, fs, _) \<Rightarrow> Suc (length fs))",
    goal_cases)
  case 1
  then show ?case by (simp add: wf_mlex)
next
  case 2
  then show ?case
    by (intro mlex_less) (auto intro!: psubset_card_mono)
next
  case 3
  then show ?case by (auto intro: mlex_leq)
next
  case 4
  then show ?case by (auto intro: mlex_leq)
next
  case 5
  then show ?case by (auto intro: mlex_leq)
next
  case (6 meta f rest st r)
  have "visited_models st \<subseteq>
          visited_models (add_model_schema meta r (append_part (relation_line meta f r) st))"
    using visited_grows_dom(1) [OF 6(3)] by simp
  then have
    "card (- visited_models (add_model_schema meta r (append_part (relation_line meta f r) st)))
       \<le> card (- visited_models st)"
    by (intro card_mono) auto
  then show ?case
    by (intro mlex_leq) auto
qed

termination add_model_schema
  by (rule add_model_schema_terminates)

declare add_model_schema.simps [simp del]

text \<open>
  The body of \<open>get_models_schema\<close>: the loop over \<open>models_list\<close> from the empty list and
  the empty set, which leaves \<open>schema_parts\<close>, and the join of the lines.
\<close>

definition initial_state :: "'m schema_state" where
  "initial_state = \<lparr>schema_parts = [], visited_models = {}\<rparr>"

definition schema_lines :: "('m::finite \<Rightarrow> 'm model_meta) \<Rightarrow> 'm list \<Rightarrow> string list" where
  "schema_lines meta models_list =
     schema_parts (fold (add_model_schema meta) models_list initial_state)"

definition get_models_schema :: "('m::finite \<Rightarrow> 'm model_meta) \<Rightarrow> 'm list \<Rightarrow> string" where
  "get_models_schema meta models_list = str_join ''\<newline>'' (schema_lines meta models_list)"

section \<open>The query synthesizer: \<open>nl_to_orm\<close>\<close>

text \<open>
  The argument \<open>models\<close> is one model or a list of models
  (\<open>isinstance(models, list)\<close> tells them apart).
\<close>

datatype 'm models_arg = Single 'm | Many "'m list"

definition as_list :: "'m models_arg \<Rightarrow> 'm list" where
  "as_list models = (case models of Many ms \<Rightarrow> ms | Single m \<Rightarrow> [m])"

text \<open>What is sent to \<open>ollama.chat\<close> and what comes back.\<close>

record chat_message =
  role :: string
  content :: string

record 'f chat_options =
  temperature :: 'f
  num_predict :: int

record chat_response =
  message :: chat_message

text \<open>
  \<open>ast.parse(source, mode)\<close>. The mode \<open>'exec'\<close>, which is the default, parses the
  source as a module, a sequence of statements; the mode \<open>'eval'\<close> parses it as one
  expression. The outcome: it returns, it raises \<open>SyntaxError\<close>, whose text \<open>str(e)\<close> is
  kept, or it raises something else.
\<close>

datatype parse_mode = Exec | Eval

datatype 'e parse_result = Parsed | SyntaxError string | ParseRaised 'e

text \<open>The default system prompt, the f-string of lines 86 to 104.\<close>

definition default_system_prompt :: "string \<Rightarrow> string \<Rightarrow> string" where
  "default_system_prompt schema start_model =
     ''You are an expert in Django ORM queries.\<newline>'' @
     ''Given this schema (with relations):\<newline>'' @
     ''\<newline>'' @
     schema @ ''\<newline>'' @
     ''\<newline>'' @
     ''Convert the natural language to a valid Django ORM query string.\<newline>'' @
     ''- Start with '' @ start_model @ ''.objects\<newline>'' @
     ''- Use ALL QuerySet methods as needed: filter/exclude/get/all/order_by/distinct/values/values_list/only/defer/update/delete\<newline>'' @
     ''- Advanced lookups: __gt/__lte/__in/__range/__contains/__startswith/__year\<newline>'' @
     ''- Complex logic: Import Q (e.g., Q(field__gt=100) & ~Q(other=False))\<newline>'' @
     ''- Field ops: Import F (e.g., filter(score__gt=F('attempts')))\<newline>'' @
     ''- Subqueries: Import Subquery/Exists/OuterRef/When/Case\<newline>'' @
     ''- Aggregates: Import Avg/Sum/Max/Min/Count; use annotate/aggregate\<newline>'' @
     ''- Relations: Joins via __, select_related/prefetch_related\<newline>'' @
     ''- Other: dates/date_trunc, Func, raw SQL (last resort)\<newline>'' @
     ''- Mutations: Use .update/.delete if implied\<newline>'' @
     ''- Imports: Prefix with 'from django.db.models import ...' for Q/F/Subquery/Avg/etc.\<newline>'' @
     ''- For GenericForeignKey: Use content_type and object_id fields for filtering (e.g., filter(content_type__model='modelname', object_id__in=[...]))\<newline>'' @
     ''- Output ONLY the Python code string, executable as-is.''"

text \<open>
  Lines 83 to 104: the system prompt. \<open>str_format template kwargs\<close> is
  \<open>template.format(**kwargs)\<close>, a parameter; a custom prompt that is \<open>None\<close> or empty
  is false and gives the default prompt.
\<close>

definition build_system_prompt ::
    "(string \<Rightarrow> (string \<times> string) list \<Rightarrow> 'e + string) \<Rightarrow> string option \<Rightarrow>
     string \<Rightarrow> string \<Rightarrow> string \<Rightarrow> 'e error + string" where
  "build_system_prompt str_format custom_system_prompt schema nl_query start_model =
     (case custom_system_prompt of
        Some template \<Rightarrow>
          if template \<noteq> []
          then (case str_format template
                       [(''schema'', schema), (''nl_query'', nl_query),
                        (''start_model'', start_model)] of
                  Inl e \<Rightarrow> Inl (Raised e)
                | Inr system_prompt \<Rightarrow> Inr system_prompt)
          else Inr (default_system_prompt schema start_model)
      | None \<Rightarrow> Inr (default_system_prompt schema start_model))"

text \<open>Lines 108 to 111: the two messages of the request.\<close>

definition chat_messages :: "string \<Rightarrow> string \<Rightarrow> chat_message list" where
  "chat_messages system_prompt nl_query =
     [\<lparr>role = ''system'', content = system_prompt\<rparr>, \<lparr>role = ''user'', content = nl_query\<rparr>]"

text \<open>
  Lines 118 to 122: the reply is stripped and its code fence removed. The two index
  operations can raise in Python, so the result is a sum.
\<close>

definition extract_query :: "string \<Rightarrow> 'e error + string" where
  "extract_query reply =
     (let generated_query = str_strip reply in
      if str_startswith generated_query ''```python'' then
        (case str_split generated_query ''```python'' of
           Inl e \<Rightarrow> Inl e
         | Inr pieces \<Rightarrow>
             (case list_index pieces 1 of
                Inl e \<Rightarrow> Inl e
              | Inr after \<Rightarrow>
                  (case str_split after ''```'' of
                     Inl e \<Rightarrow> Inl e
                   | Inr pieces' \<Rightarrow>
                       (case list_index pieces' 0 of
                          Inl e \<Rightarrow> Inl e
                        | Inr body \<Rightarrow> Inr (str_strip body)))))
      else if str_startswith generated_query ''`'' then
        Inr (str_strip (str_strip_chars generated_query ''`''))
      else Inr generated_query)"

text \<open>
  Lines 124 to 130: the syntax check and the return. The call \<open>ast.parse(generated_query)\<close>
  gives no mode, so the mode is \<open>'exec'\<close>.
\<close>

definition invalid_syntax_message :: "string \<Rightarrow> string \<Rightarrow> string" where
  "invalid_syntax_message e generated_query =
     ''Invalid query syntax: '' @ e @ ''\<newline>Query: '' @ generated_query"

definition check_and_return ::
    "(string \<Rightarrow> parse_mode \<Rightarrow> 'e parse_result) \<Rightarrow> bool \<Rightarrow> string \<Rightarrow> 'e error + string"
    where
  "check_and_return ast_parse validate_code generated_query =
     (if validate_code then
        (case ast_parse generated_query Exec of
           Parsed \<Rightarrow> Inr generated_query
         | SyntaxError e \<Rightarrow> Inl (ValueError (invalid_syntax_message e generated_query))
         | ParseRaised x \<Rightarrow> Inl (Raised x))
      else Inr generated_query)"

text \<open>
  \<open>nl_to_orm\<close>. The three library calls are parameters: \<open>str_format\<close> for
  \<open>str.format\<close>, \<open>chat\<close> for \<open>ollama.chat\<close> and \<open>ast_parse\<close> for \<open>ast.parse\<close>; each can
  raise. \<open>models[0]\<close> raises \<open>IndexError\<close> on the empty list, after the schema has been
  built.
\<close>

definition nl_to_orm ::
    "(string \<Rightarrow> (string \<times> string) list \<Rightarrow> 'e + string) \<Rightarrow>
     (string \<Rightarrow> chat_message list \<Rightarrow> 'f chat_options \<Rightarrow> 'e + chat_response) \<Rightarrow>
     (string \<Rightarrow> parse_mode \<Rightarrow> 'e parse_result) \<Rightarrow>
     ('m::finite \<Rightarrow> 'm model_meta) \<Rightarrow>
     'm models_arg \<Rightarrow> string \<Rightarrow> string \<Rightarrow> string option \<Rightarrow> 'f \<Rightarrow> int \<Rightarrow> bool \<Rightarrow>
     'e error + string" where
  "nl_to_orm str_format chat ast_parse meta models nl_query ollama_model
       custom_system_prompt temperature' max_tokens validate_code =
     (let models_list = as_list models;
          schema = get_models_schema meta models_list in
      case list_index models_list 0 of
        Inl e \<Rightarrow> Inl e
      | Inr first_model \<Rightarrow>
          let start_model = model_name (meta first_model) in
          (case build_system_prompt str_format custom_system_prompt schema nl_query
                  start_model of
             Inl e \<Rightarrow> Inl e
           | Inr system_prompt \<Rightarrow>
               (case chat ollama_model (chat_messages system_prompt nl_query)
                       \<lparr>temperature = temperature', num_predict = max_tokens\<rparr> of
                  Inl e \<Rightarrow> Inl (Raised e)
                | Inr response \<Rightarrow>
                    (case extract_query (content (message response)) of
                       Inl e \<Rightarrow> Inl e
                     | Inr generated_query \<Rightarrow>
                         check_and_return ast_parse validate_code generated_query))))"

section \<open>Notions used to state the properties\<close>

text \<open>
  The lines that describe a model are those that start with \<open>Model: \<close>; a field line
  starts with two blanks and the separator line is empty.
\<close>

definition is_model_line :: "string \<Rightarrow> bool" where
  "is_model_line l = str_startswith l ''Model: ''"

definition model_lines :: "string list \<Rightarrow> string list" where
  "model_lines parts = filter is_model_line parts"

text \<open>
  The models that the fields of a model lead the traversal to: the targets of the fields
  that take the second branch of the loop. \<open>relates meta\<close> is that relation between
  models.
\<close>

definition related_models :: "('m \<Rightarrow> 'm model_meta) \<Rightarrow> 'm \<Rightarrow> 'm list" where
  "related_models meta m =
     concat (map (\<lambda>f. if is_generic_foreign_key f then []
                       else (case related_model f of Some r \<Rightarrow> [r] | None \<Rightarrow> []))
                 (get_fields (meta m)))"

definition relates :: "('m \<Rightarrow> 'm model_meta) \<Rightarrow> ('m \<times> 'm) set" where
  "relates meta = {(a, b). b \<in> set (related_models meta a)}"

text \<open>The models that the relations reach from the models of a list.\<close>

definition reached :: "('m \<Rightarrow> 'm model_meta) \<Rightarrow> 'm list \<Rightarrow> 'm set" where
  "reached meta models_list = {c. \<exists>m \<in> set models_list. (m, c) \<in> (relates meta)\<^sup>*}"

text \<open>The line that the loop emits for a field.\<close>

definition field_line :: "('m \<Rightarrow> 'm model_meta) \<Rightarrow> 'm field \<Rightarrow> string" where
  "field_line meta f =
     (if is_generic_foreign_key f then generic_line f
      else case related_model f of
             Some r \<Rightarrow> relation_line meta f r
           | None \<Rightarrow> plain_line f)"

text \<open>
  \<open>described meta st st' new\<close>: from \<open>st\<close> to \<open>st'\<close> the models \<open>new\<close>, each once and
  none of them visited before, have been visited and their \<open>Model:\<close> lines emitted, in
  this order.
\<close>

definition described ::
    "('m \<Rightarrow> 'm model_meta) \<Rightarrow> 'm schema_state \<Rightarrow> 'm schema_state \<Rightarrow> 'm list \<Rightarrow> bool" where
  "described meta st st' new =
     (distinct new \<and> set new \<inter> visited_models st = {} \<and>
      visited_models st' = visited_models st \<union> set new \<and>
      model_lines (schema_parts st') =
        model_lines (schema_parts st) @ map (\<lambda>m. model_line (meta m)) new)"

text \<open>
  \<open>closed_since meta st st'\<close>: every model visited from \<open>st\<close> to \<open>st'\<close> has all its
  related models visited in \<open>st'\<close>.
\<close>

definition closed_since ::
    "('m \<Rightarrow> 'm model_meta) \<Rightarrow> 'm schema_state \<Rightarrow> 'm schema_state \<Rightarrow> bool" where
  "closed_since meta st st' =
     (\<forall>v \<in> visited_models st' - visited_models st.
        set (related_models meta v) \<subseteq> visited_models st')"

text \<open>
  \<open>lines_since meta st st'\<close>: every model visited from \<open>st\<close> to \<open>st'\<close> has the lines of
  all its fields among the lines of \<open>st'\<close>.
\<close>

definition lines_since ::
    "('m \<Rightarrow> 'm model_meta) \<Rightarrow> 'm schema_state \<Rightarrow> 'm schema_state \<Rightarrow> bool" where
  "lines_since meta st st' =
     (\<forall>v \<in> visited_models st' - visited_models st.
        \<forall>f \<in> set (get_fields (meta v)). field_line meta f \<in> set (schema_parts st'))"

text \<open>
  The part of a text before the first occurrence of a separator, and the whole text
  where the separator does not occur.
\<close>

fun before_first :: "string \<Rightarrow> string \<Rightarrow> string" where
  "before_first [] sep = []"
| "before_first (c # cs) sep =
     (if sep \<noteq> [] \<and> str_startswith (c # cs) sep then [] else c # before_first cs sep)"

text \<open>A list without its repetitions: each element where it occurs first.\<close>

fun first_occurrences :: "'a list \<Rightarrow> 'a list" where
  "first_occurrences [] = []"
| "first_occurrences (x # xs) = x # first_occurrences (removeAll x xs)"

text \<open>
  A model none of whose fields is a relation, generic or not, and the lines expected for
  it: the \<open>Model:\<close> line, one line per field with its internal type, and the empty line.
\<close>

definition plain_model :: "('m \<Rightarrow> 'm model_meta) \<Rightarrow> 'm \<Rightarrow> bool" where
  "plain_model meta m =
     (\<forall>f \<in> set (get_fields (meta m)). \<not> is_generic_foreign_key f \<and> related_model f = None)"

definition model_block :: "('m \<Rightarrow> 'm model_meta) \<Rightarrow> 'm \<Rightarrow> string list" where
  "model_block meta m =
     model_line (meta m) # map plain_line (get_fields (meta m)) @ ['''']"

section \<open>Example models\<close>

text \<open>A program with three model classes, and three kinds of field.\<close>

datatype model_ref = ModelA | ModelB | ModelC

instance model_ref :: finite
proof
  have "(UNIV :: model_ref set) = {ModelA, ModelB, ModelC}"
    by (auto intro: model_ref.exhaust)
  then show "finite (UNIV :: model_ref set)"
    by (metis finite.emptyI finite.insertI)
qed

definition plain_field :: "string \<Rightarrow> string \<Rightarrow> 'm field" where
  "plain_field n t =
     \<lparr>field_name = n, is_generic_foreign_key = False, related_model = None,
      internal_type = t\<rparr>"

definition relation_field :: "string \<Rightarrow> 'm \<Rightarrow> string \<Rightarrow> 'm field" where
  "relation_field n r t =
     \<lparr>field_name = n, is_generic_foreign_key = False, related_model = Some r,
      internal_type = t\<rparr>"

definition generic_field :: "string \<Rightarrow> 'm field" where
  "generic_field n =
     \<lparr>field_name = n, is_generic_foreign_key = True, related_model = None,
      internal_type = []\<rparr>"

text \<open>
  \<open>Candidate\<close> has a foreign key to \<open>Stage\<close>, and \<open>Stage\<close> the reverse relation to
  \<open>Candidate\<close>: a cycle. \<open>Note\<close> has a generic foreign key.
\<close>

fun hiring_meta :: "model_ref \<Rightarrow> model_ref model_meta" where
  "hiring_meta ModelA =
     \<lparr>model_name = ''Candidate'',
      get_fields = [plain_field ''id'' ''AutoField'',
                    relation_field ''stage'' ModelB ''ForeignKey'']\<rparr>"
| "hiring_meta ModelB =
     \<lparr>model_name = ''Stage'',
      get_fields = [relation_field ''candidate'' ModelA ''ForeignKey'',
                    plain_field ''title'' ''CharField'']\<rparr>"
| "hiring_meta ModelC =
     \<lparr>model_name = ''Note'',
      get_fields = [plain_field ''object_id'' ''PositiveIntegerField'',
                    generic_field ''target'']\<rparr>"

text \<open>Three models without relations.\<close>

fun catalog_meta :: "model_ref \<Rightarrow> model_ref model_meta" where
  "catalog_meta ModelA =
     \<lparr>model_name = ''Author'',
      get_fields = [plain_field ''id'' ''AutoField'', plain_field ''name'' ''CharField'']\<rparr>"
| "catalog_meta ModelB =
     \<lparr>model_name = ''Book'', get_fields = [plain_field ''title'' ''CharField'']\<rparr>"
| "catalog_meta ModelC = \<lparr>model_name = ''Shelf'', get_fields = []\<rparr>"


text \<open>Two different classes with the same \<open>__name__\<close> that relate to each other.\<close>

fun twin_cycle_meta :: "model_ref \<Rightarrow> model_ref model_meta" where
  "twin_cycle_meta ModelA =
     \<lparr>model_name = ''Tag'', get_fields = [relation_field ''peer'' ModelB ''ForeignKey'']\<rparr>"
| "twin_cycle_meta ModelB =
     \<lparr>model_name = ''Tag'', get_fields = [relation_field ''peer'' ModelA ''ForeignKey'']\<rparr>"
| "twin_cycle_meta ModelC = \<lparr>model_name = ''Post'', get_fields = []\<rparr>"

text \<open>
  Stand-ins for the library calls in the examples: a chat endpoint that answers every
  request with the same text, a format that fails, and a parser. The parser knows two
  things of Python: a text with more opening than closing parentheses, or the reverse, is
  a syntax error in both modes, and a text that starts with the keyword \<open>from\<close> or
  \<open>import\<close> is no expression, so a syntax error in the mode \<open>'eval'\<close>. It accepts every
  other text.
\<close>

definition canned_chat ::
    "string \<Rightarrow> string \<Rightarrow> chat_message list \<Rightarrow> 'f chat_options \<Rightarrow> 'e + chat_response" where
  "canned_chat reply ollama_model messages options =
     Inr \<lparr>message = \<lparr>role = ''assistant'', content = reply\<rparr>\<rparr>"

definition no_format :: "string \<Rightarrow> (string \<times> string) list \<Rightarrow> string + string" where
  "no_format template kwargs = Inl ''KeyError''"

definition example_parse :: "string \<Rightarrow> parse_mode \<Rightarrow> 'e parse_result" where
  "example_parse text mode =
     (if count_list text (CHR ''('') \<noteq> count_list text (CHR '')'')
      then SyntaxError '''(' was never closed (<unknown>, line 1)''
      else if mode = Eval \<and> (str_startswith text ''from '' \<or> str_startswith text ''import '')
      then SyntaxError ''invalid syntax (<unknown>, line 1)''
      else Parsed)"

section \<open>Properties of the string functions\<close>

lemma split_pieces_not_empty: "split_pieces s sep \<noteq> []"
  by (induction s sep rule: split_pieces.induct) (auto split: list.splits)

lemma str_contains_prefix: "str_contains (sub @ b) sub"
proof (cases "sub @ b")
  case Nil
  then show ?thesis by simp
next
  case (Cons c cs)
  have "str_startswith (sub @ b) sub"
    by (simp add: str_startswith_def)
  then show ?thesis
    unfolding Cons by simp
qed

lemma str_contains_middle: "str_contains (a @ sub @ b) sub"
  by (induction a) (simp_all add: str_contains_prefix)

lemma split_pieces_startswith:
  assumes "sep \<noteq> []" and "str_startswith s sep"
  shows "split_pieces s sep = [] # split_pieces (drop (length sep) s) sep"
proof (cases s)
  case Nil
  with assms show ?thesis by (simp add: str_startswith_def)
next
  case (Cons c cs)
  with assms show ?thesis by simp
qed

lemma not_startswith_other_head:
  "sep \<noteq> [] \<Longrightarrow> c \<noteq> hd sep \<Longrightarrow> \<not> str_startswith (c # cs) sep"
  by (cases sep) (auto simp: str_startswith_def)

lemma split_pieces_skip:
  assumes "sep \<noteq> []" and "hd sep \<notin> set a" and "split_pieces b sep = p # ps"
  shows "split_pieces (a @ b) sep = (a @ p) # ps"
  using assms(2)
proof (induction a)
  case Nil
  then show ?case using assms(3) by simp
next
  case (Cons c cs)
  then have "\<not> str_startswith (c # cs @ b) sep"
    using assms(1) not_startswith_other_head by fastforce
  with Cons show ?case by simp
qed

lemma hd_split_pieces: "hd (split_pieces s sep) = before_first s sep"
proof (induction s sep rule: split_pieces.induct)
  case (1 sep)
  show ?case by simp
next
  case (2 c cs sep)
  show ?case
  proof (cases "sep \<noteq> [] \<and> str_startswith (c # cs) sep")
    case True
    then show ?thesis by simp
  next
    case False
    obtain p ps where p: "split_pieces cs sep = p # ps"
      using split_pieces_not_empty by (meson list.exhaust)
    with 2(2) [OF False] False show ?thesis by simp
  qed
qed

lemma before_first_prefix: "\<exists>w. s = before_first s sep @ w"
  by (induction s) auto

lemma startswith_append: "str_startswith a p \<Longrightarrow> str_startswith (a @ w) p"
proof -
  assume a: "str_startswith a p"
  then have "length (take (length p) a) = length p"
    by (simp add: str_startswith_def)
  then have "length p \<le> length a"
    by simp
  with a show ?thesis
    by (simp add: str_startswith_def)
qed

lemma startswith_shorter: "str_startswith s (p @ q) \<Longrightarrow> str_startswith s p"
  unfolding str_startswith_def
  by (metis append_eq_conv_conj length_append take_add take_append append_take_drop_id
      append_assoc)

lemma take3_closing:
  "take (length ''```'') (c # cs @ ''```'' @ rest) = take (length ''```'') (c # cs @ ''``'')"
proof (cases cs)
  case Nil
  then show ?thesis by simp
next
  case (Cons d ds)
  then show ?thesis by (cases ds) simp_all
qed

lemma wrapped_body:
  assumes "\<not> str_contains (inner @ ''``'') ''```''"
    and "\<not> str_startswith rest ''`python''" and "\<not> str_startswith rest ''``python''"
  shows "before_first (before_first (inner @ ''```'' @ rest) ''```python'') ''```'' = inner"
  using assms(1)
proof (induction inner)
  case Nil
  show ?case
    using assms(2,3) by (simp add: str_startswith_def)
next
  case (Cons c cs)
  from Cons.prems have n: "\<not> str_startswith (c # cs @ ''``'') ''```''"
    and h: "\<not> str_contains (cs @ ''``'') ''```''"
    by simp_all
  have t: "\<not> str_startswith (c # cs @ ''```'' @ rest) ''```''"
    using n unfolding str_startswith_def take3_closing [of c cs rest] .
  have "\<not> str_startswith (c # cs @ ''```'' @ rest) (''```'' @ ''python'')"
    using t startswith_shorter by blast
  then have f: "\<not> str_startswith (c # cs @ ''```'' @ rest) ''```python''"
    by simp
  let ?Y = "before_first (cs @ ''```'' @ rest) ''```python''"
  obtain w where w: "cs @ ''```'' @ rest = ?Y @ w"
    using before_first_prefix by blast
  have "\<not> str_startswith (c # ?Y) ''```''"
  proof
    assume "str_startswith (c # ?Y) ''```''"
    then have "str_startswith ((c # ?Y) @ w) ''```''"
      by (rule startswith_append)
    with t w show False by simp
  qed
  moreover have "before_first ((c # cs) @ ''```'' @ rest) ''```python'' = c # ?Y"
    using f by simp
  ultimately show ?case
    using Cons.IH [OF h] by simp
qed

lemma strip_where_between:
  assumes "\<forall>x \<in> set a. P x" and "\<forall>x \<in> set b. P x"
    and "inner = [] \<or> (\<not> P (hd inner) \<and> \<not> P (last inner))"
  shows "strip_where P (a @ inner @ b) = inner"
proof (cases inner)
  case Nil
  have d: "dropWhile P (a @ b) = []"
    using assms(1,2) by (simp add: dropWhile_eq_Nil_conv)
  have "strip_where P (a @ b) = []"
    unfolding strip_where_def d by simp
  with Nil show ?thesis by simp
next
  case (Cons c cs)
  with assms(3) have c: "\<not> P c" and l: "\<not> P (last inner)" and ne: "inner \<noteq> []"
    by simp_all
  have 1: "dropWhile P (a @ inner @ b) = inner @ b"
    using assms(1) c Cons by (simp add: dropWhile_append)
  have 2: "dropWhile P (rev inner) = rev inner"
    using l ne by (simp add: dropWhile_eq_self_iff hd_rev)
  have "dropWhile P (rev b @ rev inner) = dropWhile P (rev inner)"
    using assms(2) by (simp add: dropWhile_append)
  with 2 have "dropWhile P (rev (inner @ b)) = rev inner"
    by simp
  then show ?thesis
    by (simp add: strip_where_def 1)
qed

lemma extract_query_open_fence:
  fixes reply :: string
  assumes "str_startswith (str_strip reply) ''```python''"
  shows "(extract_query reply :: 'e error + string) =
     Inr (str_strip (before_first
       (before_first (drop (length ''```python'') (str_strip reply)) ''```python'') ''```''))"
proof -
  let ?t = "str_strip reply"
  let ?L = "split_pieces (drop (length ''```python'') ?t) ''```python''"
  have sp: "split_pieces ?t ''```python'' = [] # ?L"
    using assms by (intro split_pieces_startswith) simp_all
  have L: "?L \<noteq> []"
    by (rule split_pieces_not_empty)
  have ix1: "(list_index ([] # ?L) 1 :: 'e error + string) = Inr (hd ?L)"
    using L by (cases ?L) (simp_all add: list_index_def)
  let ?M = "split_pieces (hd ?L) ''```''"
  have M: "?M \<noteq> []"
    by (rule split_pieces_not_empty)
  have ix2: "(list_index ?M 0 :: 'e error + string) = Inr (hd ?M)"
    using M by (cases ?M) (simp_all add: list_index_def)
  have "(extract_query reply :: 'e error + string) = Inr (str_strip (hd ?M))"
    unfolding extract_query_def Let_def str_split_def
    using assms by (simp only: sp ix1 ix2 if_True if_False sum.case list.distinct not_Cons_self2)
  then show ?thesis
    by (simp only: hd_split_pieces)
qed

lemma extract_query_wrapped:
  fixes reply :: string
  assumes "str_strip reply = ''```python'' @ inner @ ''```'' @ rest"
    and "\<not> str_contains (inner @ ''``'') ''```''"
    and "\<not> str_startswith rest ''`python''" and "\<not> str_startswith rest ''``python''"
  shows "(extract_query reply :: 'e error + string) = Inr (str_strip inner)"
proof -
  have s: "str_startswith (str_strip reply) ''```python''"
    unfolding assms(1) by (simp add: str_startswith_def)
  have d: "drop (length ''```python'') (str_strip reply) = inner @ ''```'' @ rest"
    unfolding assms(1) by simp
  show ?thesis
    unfolding extract_query_open_fence [OF s] d wrapped_body [OF assms(2-4)] ..
qed

lemma extract_query_inline:
  fixes reply :: string
  assumes "str_strip reply = ''`'' @ inner @ ''`''"
    and "inner = [] \<or> (hd inner \<noteq> CHR 0x60 \<and> last inner \<noteq> CHR 0x60)"
  shows "(extract_query reply :: 'e error + string) = Inr (str_strip inner)"
proof -
  have n: "\<not> str_startswith (''`'' @ inner @ ''`'') ''```python''"
    using assms(2) by (cases inner) (auto simp: str_startswith_def)
  have s: "str_startswith (''`'' @ inner @ ''`'') ''`''"
    by (simp add: str_startswith_def)
  have "str_strip_chars (''`'' @ inner @ ''`'') ''`'' = inner"
    unfolding str_strip_chars_def using assms(2) by (intro strip_where_between) auto
  with n s show ?thesis
    by (simp add: extract_query_def Let_def assms(1))
qed

lemma extract_unfenced:
  "\<not> str_startswith (str_strip reply) ''`'' \<Longrightarrow> extract_query reply = Inr (str_strip reply)"
proof -
  assume a: "\<not> str_startswith (str_strip reply) ''`''"
  then have "\<not> str_startswith (str_strip reply) ''```python''"
    by (cases "str_strip reply") (auto simp: str_startswith_def)
  with a show ?thesis
    by (simp add: extract_query_def Let_def)
qed

lemma strip_prose_example:
  "str_strip ''  ```python\<newline>Candidate.objects.all()\<newline>```\<newline>This lists all candidates.\<newline>'' =
     ''```python'' @ ''\<newline>Candidate.objects.all()\<newline>'' @ ''```'' @
     ''\<newline>This lists all candidates.''"
  "str_strip ''\<newline>Candidate.objects.all()\<newline>'' = ''Candidate.objects.all()''"
  by (simp_all add: str_strip_def strip_where_def isspace_def)

lemma split_pieces_line: "CHR 0x0A \<notin> set l \<Longrightarrow> split_pieces l ''\<newline>'' = [l]"
  using split_pieces_skip [of "''\<newline>''" l "[]" "[]" "[]"] by simp

lemma split_pieces_join:
  assumes "\<forall>l \<in> set lines. CHR 0x0A \<notin> set l" and "lines \<noteq> []"
  shows "split_pieces (str_join ''\<newline>'' lines) ''\<newline>'' = lines"
  using assms
proof (induction "''\<newline>''" lines rule: str_join.induct)
  case 1
  then show ?case by simp
next
  case (2 p)
  then show ?case by (simp add: split_pieces_line)
next
  case (3 p q ps)
  have rest: "split_pieces (str_join ''\<newline>'' (q # ps)) ''\<newline>'' = q # ps"
    using 3 by simp
  have "split_pieces (''\<newline>'' @ str_join ''\<newline>'' (q # ps)) ''\<newline>'' =
          [] # split_pieces (str_join ''\<newline>'' (q # ps)) ''\<newline>''"
    by (simp add: str_startswith_def)
  with rest have "split_pieces (''\<newline>'' @ str_join ''\<newline>'' (q # ps)) ''\<newline>'' = [] # q # ps"
    by simp
  then have "split_pieces (p @ ''\<newline>'' @ str_join ''\<newline>'' (q # ps)) ''\<newline>'' =
          (p @ []) # q # ps"
    using 3(2) by (intro split_pieces_skip) simp_all
  then show ?case by simp
qed

lemma extract_query_returns: "\<exists>q. extract_query reply = Inr q"
proof (cases "str_startswith (str_strip reply) ''```python''")
  case True
  have "split_pieces (str_strip reply) ''```python'' =
          [] # split_pieces (drop (length ''```python'') (str_strip reply)) ''```python''"
    using True by (intro split_pieces_startswith) simp_all
  moreover obtain p ps where
    "split_pieces (drop (length ''```python'') (str_strip reply)) ''```python'' = p # ps"
    using split_pieces_not_empty by (meson list.exhaust)
  moreover obtain p' ps' where "split_pieces p ''```'' = p' # ps'"
    using split_pieces_not_empty by (meson list.exhaust)
  ultimately show ?thesis
    using True by (simp add: extract_query_def Let_def str_split_def list_index_def)
next
  case False
  then show ?thesis by (simp add: extract_query_def Let_def)
qed

section \<open>Properties of the traversal\<close>

lemma is_model_line_simps [simp]:
  "is_model_line (model_line mm)"
  "\<not> is_model_line (generic_line f)"
  "\<not> is_model_line (relation_line meta f r)"
  "\<not> is_model_line (plain_line f)"
  "\<not> is_model_line []"
  by (simp_all add: is_model_line_def str_startswith_def model_line_def generic_line_def
      relation_line_def plain_line_def)

lemma visited_grows:
  "visited_models st \<subseteq> visited_models (add_model_schema meta m st)"
  "visited_models st \<subseteq> visited_models (add_fields meta fs st)"
  using add_model_schema_terminates visited_grows_dom by blast+

lemma add_model_schema_visited:
  "m \<in> visited_models st \<Longrightarrow> add_model_schema meta m st = st"
  by (simp add: add_model_schema.simps)

lemma described_refl: "described meta st st []"
  by (simp add: described_def)

lemma described_trans:
  "described meta st st1 new1 \<Longrightarrow> described meta st1 st2 new2 \<Longrightarrow>
     described meta st st2 (new1 @ new2)"
  by (auto simp: described_def)

lemma described_append_left [simp]:
  "\<not> is_model_line l \<Longrightarrow> described meta (append_part l st) st' new = described meta st st' new"
  by (simp add: described_def model_lines_def)

lemma described_append_right [simp]:
  "\<not> is_model_line l \<Longrightarrow> described meta st (append_part l st') new = described meta st st' new"
  by (simp add: described_def model_lines_def)

lemma described_visit:
  assumes "m \<notin> visited_models st"
    and "described meta (append_part (model_line (meta m))
            (st\<lparr>visited_models := insert m (visited_models st)\<rparr>)) st' new"
  shows "described meta st st' (m # new)"
  using assms by (auto simp: described_def model_lines_def)

lemma add_described:
  "\<exists>new. described meta st (add_model_schema meta m st) new"
  "\<exists>new. described meta st (add_fields meta fs st) new"
proof (induction meta m st and meta fs st rule: add_model_schema_add_fields.induct)
  case (1 meta model st)
  show ?case
  proof (cases "model \<in> visited_models st")
    case True
    then show ?thesis
      using described_refl by (auto simp: add_model_schema.simps)
  next
    case False
    from 1 [OF False] obtain new where
      "described meta (append_part (model_line (meta model))
          (st\<lparr>visited_models := insert model (visited_models st)\<rparr>))
        (add_fields meta (get_fields (meta model))
          (append_part (model_line (meta model))
            (st\<lparr>visited_models := insert model (visited_models st)\<rparr>))) new"
      by blast
    then have "described meta st (add_model_schema meta model st) (model # new)"
      using False
      by (simp add: add_model_schema.simps described_visit)
    then show ?thesis by blast
  qed
next
  case (2 meta st)
  show ?case using described_refl by auto
next
  case (3 meta f rest st)
  show ?case
  proof (cases "is_generic_foreign_key f")
    case True
    with 3(1) show ?thesis
      by simp
  next
    case False
    show ?thesis
    proof (cases "related_model f")
      case None
      with False 3(2) show ?thesis
        by simp
    next
      case (Some r)
      from 3(3) [OF False Some] obtain new1 where
        "described meta (append_part (relation_line meta f r) st)
           (add_model_schema meta r (append_part (relation_line meta f r) st)) new1"
        by blast
      then have a: "described meta st
           (add_model_schema meta r (append_part (relation_line meta f r) st)) new1"
        by simp
      from 3(4) [OF False Some] obtain new2 where
        b: "described meta (add_model_schema meta r (append_part (relation_line meta f r) st))
           (add_fields meta rest
              (add_model_schema meta r (append_part (relation_line meta f r) st))) new2"
        by blast
      from described_trans [OF a b] show ?thesis
        using False Some by auto
    qed
  qed
qed

lemma closed_since_refl: "closed_since meta st st"
  by (simp add: closed_since_def)

lemma closed_since_trans:
  "closed_since meta st st1 \<Longrightarrow> closed_since meta st1 st2 \<Longrightarrow>
   visited_models st1 \<subseteq> visited_models st2 \<Longrightarrow> closed_since meta st st2"
  unfolding closed_since_def by blast

lemma closed_since_append [simp]:
  "closed_since meta (append_part l st) st' = closed_since meta st st'"
  "closed_since meta st (append_part l st') = closed_since meta st st'"
  by (simp_all add: closed_since_def)

lemma related_models_Cons:
  "get_fields (meta m) = fs \<Longrightarrow>
   set (related_models meta m) =
     {r. \<exists>f \<in> set fs. \<not> is_generic_foreign_key f \<and> related_model f = Some r}"
  by (auto simp: related_models_def split: option.splits if_splits)

lemma add_closed:
  "model \<in> visited_models (add_model_schema meta model st) \<and>
   closed_since meta st (add_model_schema meta model st)"
  "(\<forall>f \<in> set fs. \<not> is_generic_foreign_key f \<longrightarrow>
      (\<forall>r. related_model f = Some r \<longrightarrow> r \<in> visited_models (add_fields meta fs st))) \<and>
   closed_since meta st (add_fields meta fs st)"
proof (induction meta model st and meta fs st rule: add_model_schema_add_fields.induct)
  case (1 meta model st)
  show ?case
  proof (cases "model \<in> visited_models st")
    case True
    then show ?thesis by (simp add: add_model_schema.simps closed_since_refl)
  next
    case False
    let ?st1 = "append_part (model_line (meta model))
                  (st\<lparr>visited_models := insert model (visited_models st)\<rparr>)"
    let ?st2 = "add_fields meta (get_fields (meta model)) ?st1"
    have eq: "add_model_schema meta model st = append_part [] ?st2"
      using False by (simp add: add_model_schema.simps)
    have mono: "visited_models ?st1 \<subseteq> visited_models ?st2"
      by (rule visited_grows)
    have targets: "set (related_models meta model) \<subseteq> visited_models ?st2"
      using 1 [OF False] by (auto simp: related_models_Cons [OF refl])
    have cl: "closed_since meta ?st1 ?st2"
      using 1 [OF False] by simp
    have "model \<in> visited_models ?st2"
      using mono by auto
    moreover have "closed_since meta st ?st2"
      unfolding closed_since_def
    proof
      fix v assume v: "v \<in> visited_models ?st2 - visited_models st"
      show "set (related_models meta v) \<subseteq> visited_models ?st2"
      proof (cases "v = model")
        case True
        then show ?thesis using targets by simp
      next
        case False
        with v have "v \<in> visited_models ?st2 - visited_models ?st1" by simp
        with cl show ?thesis unfolding closed_since_def by blast
      qed
    qed
    ultimately show ?thesis by (simp add: eq)
  qed
next
  case (2 meta st)
  show ?case by (simp add: closed_since_refl)
next
  case (3 meta f rest st)
  show ?case
  proof (cases "is_generic_foreign_key f")
    case True
    with 3(1) show ?thesis by simp
  next
    case False
    show ?thesis
    proof (cases "related_model f")
      case None
      with False 3(2) show ?thesis by simp
    next
      case (Some r)
      let ?st1 = "add_model_schema meta r (append_part (relation_line meta f r) st)"
      let ?st2 = "add_fields meta rest ?st1"
      have eq: "add_fields meta (f # rest) st = ?st2"
        using False Some by simp
      have mono: "visited_models ?st1 \<subseteq> visited_models ?st2"
        by (rule visited_grows)
      have r: "r \<in> visited_models ?st1" and cl1: "closed_since meta st ?st1"
        using 3(3) [OF False Some] by simp_all
      have rest: "\<forall>f \<in> set rest. \<not> is_generic_foreign_key f \<longrightarrow>
          (\<forall>r. related_model f = Some r \<longrightarrow> r \<in> visited_models ?st2)"
        and cl2: "closed_since meta ?st1 ?st2"
        using 3(4) [OF False Some] by simp_all
      have "closed_since meta st ?st2"
        using closed_since_trans [OF cl1 cl2 mono] .
      moreover have "r \<in> visited_models ?st2"
        using r mono by auto
      ultimately show ?thesis
        using rest Some False by simp
    qed
  qed
qed

lemma add_fields_plain:
  "\<forall>f \<in> set fs. \<not> is_generic_foreign_key f \<and> related_model f = None \<Longrightarrow>
   add_fields meta fs st = st\<lparr>schema_parts := schema_parts st @ map plain_line fs\<rparr>"
  by (induction fs arbitrary: st) (simp_all add: append_part_def)

lemma add_model_schema_plain:
  "plain_model meta m \<Longrightarrow> m \<notin> visited_models st \<Longrightarrow>
   add_model_schema meta m st =
     st\<lparr>schema_parts := schema_parts st @ model_block meta m,
        visited_models := insert m (visited_models st)\<rparr>"
  by (simp add: add_model_schema.simps plain_model_def add_fields_plain append_part_def
      model_block_def)

lemma fold_plain:
  "\<forall>m \<in> set ms. plain_model meta m \<Longrightarrow>
   fold (add_model_schema meta) ms st =
     st\<lparr>schema_parts := schema_parts st @
            concat (map (model_block meta)
              (first_occurrences (filter (\<lambda>m. m \<notin> visited_models st) ms))),
        visited_models := visited_models st \<union> set ms\<rparr>"
proof (induction ms arbitrary: st)
  case Nil
  then show ?case by simp
next
  case (Cons x xs)
  show ?case
  proof (cases "x \<in> visited_models st")
    case True
    then have "visited_models st \<union> set (x # xs) = visited_models st \<union> set xs"
      by auto
    with True Cons show ?thesis
      by (simp add: add_model_schema_visited)
  next
    case False
    have f: "removeAll x (filter (\<lambda>m. m \<notin> visited_models st) xs) =
             filter (\<lambda>m. m \<noteq> x \<and> m \<notin> visited_models st) xs"
      by (induction xs) auto
    from False Cons show ?thesis
      by (simp add: add_model_schema_plain f)
  qed
qed

lemma first_occurrences_distinct: "distinct ms \<Longrightarrow> first_occurrences ms = ms"
  by (induction ms) simp_all

lemma fold_visited:
  "visited_models st \<union> set ms \<subseteq> visited_models (fold (add_model_schema meta) ms st)"
proof (induction ms arbitrary: st)
  case Nil
  then show ?case by simp
next
  case (Cons x xs)
  have "x \<in> visited_models (add_model_schema meta x st)"
    using add_closed(1) by blast
  moreover have "visited_models st \<subseteq> visited_models (add_model_schema meta x st)"
    by (rule visited_grows)
  ultimately show ?case
    using Cons [of "add_model_schema meta x st"] by auto
qed

lemma fold_described:
  "\<exists>new. described meta st (fold (add_model_schema meta) ms st) new"
proof (induction ms arbitrary: st)
  case Nil
  then show ?case using described_refl by auto
next
  case (Cons x xs)
  obtain new1 where "described meta st (add_model_schema meta x st) new1"
    using add_described(1) by blast
  moreover obtain new2 where "described meta (add_model_schema meta x st)
      (fold (add_model_schema meta) xs (add_model_schema meta x st)) new2"
    using Cons by blast
  ultimately show ?case
    using described_trans by fastforce
qed

lemma fold_closed:
  "closed_since meta st (fold (add_model_schema meta) ms st)"
proof (induction ms arbitrary: st)
  case Nil
  then show ?case by (simp add: closed_since_refl)
next
  case (Cons x xs)
  have "closed_since meta st (add_model_schema meta x st)"
    using add_closed(1) by blast
  moreover have "closed_since meta (add_model_schema meta x st)
      (fold (add_model_schema meta) xs (add_model_schema meta x st))"
    using Cons .
  moreover have "visited_models (add_model_schema meta x st) \<subseteq>
      visited_models (fold (add_model_schema meta) xs (add_model_schema meta x st))"
    using fold_visited by blast
  ultimately show ?case
    using closed_since_trans by fastforce
qed

lemma reachable_visited:
  assumes "m \<in> set ms" and "(m, c) \<in> (relates meta)\<^sup>*"
  shows "c \<in> visited_models (fold (add_model_schema meta) ms initial_state)"
  using assms(2)
proof (induction rule: rtrancl_induct)
  case base
  then show ?case using assms(1) fold_visited by fastforce
next
  case (step y z)
  have "closed_since meta initial_state (fold (add_model_schema meta) ms initial_state)"
    by (rule fold_closed)
  with step show ?case
    by (auto simp: closed_since_def initial_state_def relates_def)
qed

lemma schema_lines_order:
  "\<exists>order. distinct order \<and>
     set order = visited_models (fold (add_model_schema meta) ms initial_state) \<and>
     model_lines (schema_lines meta ms) = map (\<lambda>m. model_line (meta m)) order"
proof -
  obtain new where
    "described meta initial_state (fold (add_model_schema meta) ms initial_state) new"
    using fold_described by blast
  then show ?thesis
    by (auto simp: described_def initial_state_def schema_lines_def model_lines_def)
qed

lemma parts_grow:
  "\<exists>extra. schema_parts (add_model_schema meta m st) = schema_parts st @ extra"
  "\<exists>extra. schema_parts (add_fields meta fs st) = schema_parts st @ extra"
proof (induction meta m st and meta fs st rule: add_model_schema_add_fields.induct)
  case (1 meta model st)
  then show ?case
    by (cases "model \<in> visited_models st") (auto simp: add_model_schema.simps)
next
  case (2 meta st)
  show ?case by simp
next
  case (3 meta f rest st)
  show ?case
  proof (cases "is_generic_foreign_key f")
    case True
    with 3(1) show ?thesis by auto
  next
    case False
    show ?thesis
    proof (cases "related_model f")
      case None
      with False 3(2) show ?thesis by auto
    next
      case (Some r)
      from 3(3) [OF False Some] 3(4) [OF False Some] False Some show ?thesis
        by auto
    qed
  qed
qed

lemma parts_subset:
  "set (schema_parts st) \<subseteq> set (schema_parts (add_model_schema meta m st))"
  "set (schema_parts st) \<subseteq> set (schema_parts (add_fields meta fs st))"
  using parts_grow(1) [of meta m st] parts_grow(2) [of meta fs st] by auto

lemma lines_since_refl: "lines_since meta st st"
  by (simp add: lines_since_def)

lemma lines_since_trans:
  "lines_since meta st st1 \<Longrightarrow> lines_since meta st1 st2 \<Longrightarrow>
   set (schema_parts st1) \<subseteq> set (schema_parts st2) \<Longrightarrow> lines_since meta st st2"
  unfolding lines_since_def by blast

lemma lines_since_append_left [simp]:
  "lines_since meta (append_part l st) st' = lines_since meta st st'"
  by (simp add: lines_since_def)

lemma lines_since_append_right:
  "lines_since meta st st' \<Longrightarrow> lines_since meta st (append_part l st')"
  by (simp add: lines_since_def)

lemma add_lines:
  "lines_since meta st (add_model_schema meta model st)"
  "(\<forall>f \<in> set fs. field_line meta f \<in> set (schema_parts (add_fields meta fs st))) \<and>
   lines_since meta st (add_fields meta fs st)"
proof (induction meta model st and meta fs st rule: add_model_schema_add_fields.induct)
  case (1 meta model st)
  show ?case
  proof (cases "model \<in> visited_models st")
    case True
    then show ?thesis by (simp add: add_model_schema.simps lines_since_refl)
  next
    case False
    let ?st1 = "append_part (model_line (meta model))
                  (st\<lparr>visited_models := insert model (visited_models st)\<rparr>)"
    let ?st2 = "add_fields meta (get_fields (meta model)) ?st1"
    have eq: "add_model_schema meta model st = append_part [] ?st2"
      using False by (simp add: add_model_schema.simps)
    have own: "\<forall>f \<in> set (get_fields (meta model)). field_line meta f \<in> set (schema_parts ?st2)"
      and ls: "lines_since meta ?st1 ?st2"
      using 1 [OF False] by simp_all
    have "lines_since meta st ?st2"
      unfolding lines_since_def
    proof
      fix v assume v: "v \<in> visited_models ?st2 - visited_models st"
      show "\<forall>f \<in> set (get_fields (meta v)). field_line meta f \<in> set (schema_parts ?st2)"
      proof (cases "v = model")
        case True
        then show ?thesis using own by simp
      next
        case False
        with v have "v \<in> visited_models ?st2 - visited_models ?st1" by simp
        with ls show ?thesis unfolding lines_since_def by blast
      qed
    qed
    then show ?thesis
      by (simp add: eq lines_since_append_right)
  qed
next
  case (2 meta st)
  show ?case by (simp add: lines_since_refl)
next
  case (3 meta f rest st)
  show ?case
  proof (cases "is_generic_foreign_key f")
    case True
    let ?st1 = "append_part (generic_line f) st"
    have "field_line meta f \<in> set (schema_parts ?st1)"
      using True by (simp add: field_line_def)
    then have "field_line meta f \<in> set (schema_parts (add_fields meta rest ?st1))"
      using parts_subset(2) by blast
    with True 3(1) show ?thesis by simp
  next
    case False
    show ?thesis
    proof (cases "related_model f")
      case None
      let ?st1 = "append_part (plain_line f) st"
      have "field_line meta f \<in> set (schema_parts ?st1)"
        using False None by (simp add: field_line_def)
      then have "field_line meta f \<in> set (schema_parts (add_fields meta rest ?st1))"
        using parts_subset(2) by blast
      with False None 3(2) show ?thesis by simp
    next
      case (Some r)
      let ?st0 = "append_part (relation_line meta f r) st"
      let ?st1 = "add_model_schema meta r ?st0"
      let ?st2 = "add_fields meta rest ?st1"
      have "field_line meta f \<in> set (schema_parts ?st0)"
        using False Some by (simp add: field_line_def)
      then have own: "field_line meta f \<in> set (schema_parts ?st2)"
        using parts_subset(1) [of ?st0 meta r] parts_subset(2) [of ?st1 meta rest] by blast
      have ls1: "lines_since meta st ?st1"
        using 3(3) [OF False Some] by simp
      have rest: "\<forall>f \<in> set rest. field_line meta f \<in> set (schema_parts ?st2)"
        and ls2: "lines_since meta ?st1 ?st2"
        using 3(4) [OF False Some] by simp_all
      have "lines_since meta st ?st2"
        using lines_since_trans [OF ls1 ls2 parts_subset(2)] .
      with own rest False Some show ?thesis by simp
    qed
  qed
qed

lemma fold_parts_subset:
  "set (schema_parts st) \<subseteq> set (schema_parts (fold (add_model_schema meta) ms st))"
proof (induction ms arbitrary: st)
  case Nil
  show ?case by simp
next
  case (Cons x xs)
  have "set (schema_parts st) \<subseteq> set (schema_parts (add_model_schema meta x st))"
    by (rule parts_subset)
  also have "\<dots> \<subseteq> set (schema_parts
      (fold (add_model_schema meta) xs (add_model_schema meta x st)))"
    by (rule Cons)
  finally show ?case by simp
qed

lemma fold_lines:
  "lines_since meta st (fold (add_model_schema meta) ms st)"
proof (induction ms arbitrary: st)
  case Nil
  show ?case by (simp add: lines_since_refl)
next
  case (Cons x xs)
  have "lines_since meta st (add_model_schema meta x st)"
    by (rule add_lines)
  moreover have "lines_since meta (add_model_schema meta x st)
      (fold (add_model_schema meta) xs (add_model_schema meta x st))"
    using Cons .
  moreover have "set (schema_parts (add_model_schema meta x st)) \<subseteq>
      set (schema_parts (fold (add_model_schema meta) xs (add_model_schema meta x st)))"
    by (rule fold_parts_subset)
  ultimately have "lines_since meta st
      (fold (add_model_schema meta) xs (add_model_schema meta x st))"
    by (rule lines_since_trans)
  then show ?case by simp
qed

lemma reachable_field_line:
  assumes "m \<in> set ms" and "(m, c) \<in> (relates meta)\<^sup>*" and "f \<in> set (get_fields (meta c))"
  shows "field_line meta f \<in> set (schema_lines meta ms)"
proof -
  have "c \<in> visited_models (fold (add_model_schema meta) ms initial_state)"
    using assms(1,2) by (rule reachable_visited)
  moreover have "lines_since meta initial_state (fold (add_model_schema meta) ms initial_state)"
    by (rule fold_lines)
  ultimately show ?thesis
    using assms(3) by (auto simp: lines_since_def initial_state_def schema_lines_def)
qed

lemma count_list_filter: "P x \<Longrightarrow> count_list (filter P xs) x = count_list xs x"
  by (induction xs) auto



lemma hiring_names_inj: "inj (\<lambda>m. model_name (hiring_meta m))"
proof (rule injI)
  fix x y assume "model_name (hiring_meta x) = model_name (hiring_meta y)"
  then show "x = y" by (cases x; cases y) simp_all
qed

lemmas example_defs =
  schema_lines_def initial_state_def add_model_schema.simps plain_field_def
  relation_field_def generic_field_def model_line_def plain_line_def relation_line_def
  generic_line_def append_part_def


lemma add_model_schema_header:
  "m \<notin> visited_models st \<Longrightarrow>
   \<exists>rest. schema_parts (add_model_schema meta m st) = schema_parts st @ model_line (meta m) # rest"
  using parts_grow(2) [of meta "get_fields (meta m)"
      "append_part (model_line (meta m)) (st\<lparr>visited_models := insert m (visited_models st)\<rparr>)"]
  by (auto simp: add_model_schema.simps)

lemma add_within:
  "visited_models (add_model_schema meta model st) \<subseteq>
     visited_models st \<union> {c. (model, c) \<in> (relates meta)\<^sup>*}"
  "visited_models (add_fields meta fs st) \<subseteq>
     visited_models st \<union>
       {c. \<exists>f \<in> set fs. \<not> is_generic_foreign_key f \<and>
              (\<exists>r. related_model f = Some r \<and> (r, c) \<in> (relates meta)\<^sup>*)}"
proof (induction meta model st and meta fs st rule: add_model_schema_add_fields.induct)
  case (1 meta model st)
  show ?case
  proof (cases "model \<in> visited_models st")
    case True
    then show ?thesis by (simp add: add_model_schema.simps)
  next
    case False
    let ?st1 = "append_part (model_line (meta model))
                  (st\<lparr>visited_models := insert model (visited_models st)\<rparr>)"
    let ?st2 = "add_fields meta (get_fields (meta model)) ?st1"
    have eq: "add_model_schema meta model st = append_part [] ?st2"
      using False by (simp add: add_model_schema.simps)
    have ih: "visited_models ?st2 \<subseteq> visited_models ?st1 \<union>
       {c. \<exists>f \<in> set (get_fields (meta model)). \<not> is_generic_foreign_key f \<and>
              (\<exists>r. related_model f = Some r \<and> (r, c) \<in> (relates meta)\<^sup>*)}"
      using 1 [OF False] .
    have "visited_models ?st2 \<subseteq> visited_models st \<union> {c. (model, c) \<in> (relates meta)\<^sup>*}"
    proof
      fix c assume "c \<in> visited_models ?st2"
      with ih consider "c \<in> visited_models st" | "c = model"
        | f r where "f \<in> set (get_fields (meta model))" "\<not> is_generic_foreign_key f"
            "related_model f = Some r" "(r, c) \<in> (relates meta)\<^sup>*"
        by auto
      then show "c \<in> visited_models st \<union> {c. (model, c) \<in> (relates meta)\<^sup>*}"
      proof cases
        case 1
        then show ?thesis by simp
      next
        case 2
        then show ?thesis by simp
      next
        case 3
        then have "(model, r) \<in> relates meta"
          by (auto simp: relates_def related_models_Cons [OF refl])
        with 3(4) show ?thesis
          by (simp add: converse_rtrancl_into_rtrancl)
      qed
    qed
    then show ?thesis by (simp add: eq)
  qed
next
  case (2 meta st)
  show ?case by simp
next
  case (3 meta f rest st)
  show ?case
  proof (cases "is_generic_foreign_key f")
    case True
    with 3(1) show ?thesis by auto
  next
    case False
    show ?thesis
    proof (cases "related_model f")
      case None
      with False 3(2) show ?thesis by auto
    next
      case (Some r)
      let ?st1 = "add_model_schema meta r (append_part (relation_line meta f r) st)"
      let ?st2 = "add_fields meta rest ?st1"
      have eq: "add_fields meta (f # rest) st = ?st2"
        using False Some by simp
      have a: "visited_models ?st1 \<subseteq> visited_models st \<union> {c. (r, c) \<in> (relates meta)\<^sup>*}"
        using 3(3) [OF False Some] by simp
      have b: "visited_models ?st2 \<subseteq> visited_models ?st1 \<union>
         {c. \<exists>f \<in> set rest. \<not> is_generic_foreign_key f \<and>
              (\<exists>r. related_model f = Some r \<and> (r, c) \<in> (relates meta)\<^sup>*)}"
        using 3(4) [OF False Some] .
      show ?thesis
        unfolding eq
      proof
        fix c assume "c \<in> visited_models ?st2"
        with a b consider "c \<in> visited_models st" | "(r, c) \<in> (relates meta)\<^sup>*"
          | g q where "g \<in> set rest" "\<not> is_generic_foreign_key g"
              "related_model g = Some q" "(q, c) \<in> (relates meta)\<^sup>*"
          by blast
        then show "c \<in> visited_models st \<union>
           {c. \<exists>f \<in> set (f # rest). \<not> is_generic_foreign_key f \<and>
                (\<exists>r. related_model f = Some r \<and> (r, c) \<in> (relates meta)\<^sup>*)}"
        proof cases
          case 1
          then show ?thesis by simp
        next
          case 2
          with False Some show ?thesis by auto
        next
          case 3
          then show ?thesis by auto
        qed
      qed
    qed
  qed
qed

lemma fold_within:
  "visited_models (fold (add_model_schema meta) ms st) \<subseteq> visited_models st \<union> reached meta ms"
proof (induction ms arbitrary: st)
  case Nil
  show ?case by simp
next
  case (Cons x xs)
  have "visited_models (fold (add_model_schema meta) xs (add_model_schema meta x st))
          \<subseteq> visited_models (add_model_schema meta x st) \<union> reached meta xs"
    by (rule Cons)
  moreover have "visited_models (add_model_schema meta x st)
          \<subseteq> visited_models st \<union> {c. (x, c) \<in> (relates meta)\<^sup>*}"
    by (rule add_within)
  ultimately show ?case
    by (auto simp: reached_def)
qed

lemma visited_is_reached:
  "visited_models (fold (add_model_schema meta) ms initial_state) = reached meta ms"
proof
  show "visited_models (fold (add_model_schema meta) ms initial_state) \<subseteq> reached meta ms"
    using fold_within [of meta ms initial_state] by (simp add: initial_state_def)
  show "reached meta ms \<subseteq> visited_models (fold (add_model_schema meta) ms initial_state)"
    using reachable_visited by (fastforce simp: reached_def)
qed

lemma count_list_map_distinct:
  "distinct xs \<Longrightarrow> count_list (map f xs) y = card {x \<in> set xs. f x = y}"
proof (induction xs)
  case Nil
  then show ?case by simp
next
  case (Cons a xs)
  have fin: "finite {x \<in> set xs. f x = y}" by simp
  show ?case
  proof (cases "f a = y")
    case True
    then have "{x \<in> set (a # xs). f x = y} = insert a {x \<in> set xs. f x = y}"
      by auto
    moreover have "a \<notin> {x \<in> set xs. f x = y}"
      using Cons.prems by simp
    ultimately show ?thesis
      using Cons True fin by simp
  next
    case False
    then have "{x \<in> set (a # xs). f x = y} = {x \<in> set xs. f x = y}"
      by auto
    with Cons False show ?thesis by simp
  qed
qed

lemma model_line_eq: "model_line a = model_line b \<longleftrightarrow> model_name a = model_name b"
  by (simp add: model_line_def)

lemma model_line_count:
  "count_list (schema_lines meta ms) (model_line (meta c)) =
     card {c' \<in> reached meta ms. model_name (meta c') = model_name (meta c)}"
proof -
  obtain order where o: "distinct order"
    "set order = visited_models (fold (add_model_schema meta) ms initial_state)"
    "model_lines (schema_lines meta ms) = map (\<lambda>m. model_line (meta m)) order"
    using schema_lines_order by blast
  have "count_list (schema_lines meta ms) (model_line (meta c)) =
        count_list (model_lines (schema_lines meta ms)) (model_line (meta c))"
    by (simp add: model_lines_def count_list_filter)
  also have "\<dots> = card {x \<in> set order. model_line (meta x) = model_line (meta c)}"
    unfolding o(3) using o(1) by (rule count_list_map_distinct)
  finally show ?thesis
    by (simp add: o(2) visited_is_reached model_line_eq)
qed

lemma schema_lines_not_empty:
  fixes meta :: "'m::finite \<Rightarrow> 'm model_meta"
  shows "ms \<noteq> [] \<Longrightarrow> schema_lines meta ms \<noteq> []"
proof (cases ms)
  case Nil
  then show "ms \<noteq> [] \<Longrightarrow> ?thesis" by simp
next
  case (Cons x xs)
  let ?st = "add_model_schema meta x initial_state"
  have "x \<notin> visited_models (initial_state :: 'm schema_state)"
    by (simp add: initial_state_def)
  from add_model_schema_header [OF this, of meta]
  have "model_line (meta x) \<in> set (schema_parts ?st)"
    by auto
  moreover have "set (schema_parts ?st) \<subseteq> set (schema_parts (fold (add_model_schema meta) xs ?st))"
    by (rule fold_parts_subset)
  ultimately have "model_line (meta x) \<in> set (schema_lines meta ms)"
    unfolding schema_lines_def Cons by auto
  then show ?thesis by auto
qed

section \<open>Properties of the synthesizer\<close>

lemma nl_to_orm_after_reply:
  fixes str_format :: "string \<Rightarrow> (string \<times> string) list \<Rightarrow> 'e + string"
    and chat :: "string \<Rightarrow> chat_message list \<Rightarrow> 'f chat_options \<Rightarrow> 'e + chat_response"
    and ast_parse :: "string \<Rightarrow> parse_mode \<Rightarrow> 'e parse_result"
    and meta :: "'m::finite \<Rightarrow> 'm model_meta"
  assumes "as_list models = first_model # others"
    and "build_system_prompt str_format custom_system_prompt
           (get_models_schema meta (as_list models)) nl_query
           (model_name (meta first_model)) = Inr system_prompt"
    and "chat ollama_model (chat_messages system_prompt nl_query)
           \<lparr>temperature = temp, num_predict = max_tokens\<rparr> = Inr response"
    and "(extract_query (content (message response)) :: 'e error + string) = Inr generated_query"
  shows "nl_to_orm str_format chat ast_parse meta models nl_query ollama_model
           custom_system_prompt temp max_tokens validate_code =
         check_and_return ast_parse validate_code generated_query"
  using assms by (simp add: nl_to_orm_def Let_def list_index_def)

lemma extract_example:
  "(extract_query ''Candidate.objects.filter(score__gt=5'' :: string error + string) =
     Inr ''Candidate.objects.filter(score__gt=5''"
  by (simp add: extract_query_def Let_def str_strip_def strip_where_def isspace_def
      str_startswith_def)

lemma parse_example:
  "example_parse ''Candidate.objects.filter(score__gt=5'' Exec =
     SyntaxError '''(' was never closed (<unknown>, line 1)''"
  by (simp add: example_parse_def)

section \<open>The claims\<close>




text \<open>
  The claim C2 has each model of a cycle once in the output text. Two different models
  named \<open>Tag\<close> that relate to each other: the describer terminates, and the text has
  the line \<open>Model: Tag\<close> twice.
\<close>

theorem same_name_cycle_described_twice:
  "(ModelA, ModelB) \<in> relates twin_cycle_meta \<and> (ModelB, ModelA) \<in> relates twin_cycle_meta \<and>
   get_models_schema twin_cycle_meta [ModelA] =
     ''Model: Tag\<newline>  - peer: ForeignKey to Tag (access via peer__field_name)\<newline>Model: Tag\<newline>  - peer: ForeignKey to Tag (access via peer__field_name)\<newline>\<newline>'' \<and>
   count_list (schema_lines twin_cycle_meta [ModelA]) ''Model: Tag'' = 2 \<and>
   count_list (split_pieces (get_models_schema twin_cycle_meta [ModelA]) ''\<newline>'')
     ''Model: Tag'' = 2"
proof -
  have r: "(ModelA, ModelB) \<in> relates twin_cycle_meta"
    "(ModelB, ModelA) \<in> relates twin_cycle_meta"
    by (simp_all add: relates_def related_models_def relation_field_def)
  have lines: "schema_lines twin_cycle_meta [ModelA] =
     [''Model: Tag'', ''  - peer: ForeignKey to Tag (access via peer__field_name)'',
      ''Model: Tag'', ''  - peer: ForeignKey to Tag (access via peer__field_name)'', [], []]"
    by (simp add: example_defs)
  have split: "split_pieces (get_models_schema twin_cycle_meta [ModelA]) ''\<newline>'' =
      schema_lines twin_cycle_meta [ModelA]"
    unfolding get_models_schema_def
    by (rule split_pieces_join) (simp_all add: lines)
  have joined: "get_models_schema twin_cycle_meta [ModelA] =
     ''Model: Tag\<newline>  - peer: ForeignKey to Tag (access via peer__field_name)\<newline>Model: Tag\<newline>  - peer: ForeignKey to Tag (access via peer__field_name)\<newline>\<newline>''"
    unfolding get_models_schema_def lines by simp
  have count: "count_list (schema_lines twin_cycle_meta [ModelA]) ''Model: Tag'' = 2"
    unfolding lines by simp
  show ?thesis
    using r joined count unfolding split by blast
qed

text \<open>
  C2, as the code has it. Every call of \<open>add_model_schema\<close> terminates, whatever the
  relations between the models. The text is the lines joined by line breaks, and the
  \<open>Model:\<close> lines among them are those of the models that the relations reach from the
  input list, so of every model of a cycle through it, each model once. The line
  \<open>Model: \<close> with the name of a model therefore occurs as many times as there are
  reached models with that name: exactly once for a reached model whose name no other
  reached model has. Where no line has a line break in it, the lines of the text are
  these lines.
\<close>

theorem every_reached_model_described_once:
  "add_model_schema_add_fields_dom (Inl (meta, model, st)) \<and>
   get_models_schema meta models_list = str_join ''\<newline>'' (schema_lines meta models_list) \<and>
   (\<exists>order. distinct order \<and> set order = reached meta models_list \<and>
      model_lines (schema_lines meta models_list) = map (\<lambda>m. model_line (meta m)) order) \<and>
   count_list (schema_lines meta models_list) (model_line (meta c)) =
     card {c' \<in> reached meta models_list. model_name (meta c') = model_name (meta c)} \<and>
   (c \<in> reached meta models_list \<and>
    (\<forall>c' \<in> reached meta models_list. model_name (meta c') = model_name (meta c) \<longrightarrow> c' = c) \<longrightarrow>
      count_list (schema_lines meta models_list) (model_line (meta c)) = 1) \<and>
   ((\<forall>l \<in> set (schema_lines meta models_list). CHR 0x0A \<notin> set l) \<and> models_list \<noteq> [] \<longrightarrow>
      split_pieces (get_models_schema meta models_list) ''\<newline>'' = schema_lines meta models_list)"
proof -
  have order: "\<exists>order. distinct order \<and> set order = reached meta models_list \<and>
      model_lines (schema_lines meta models_list) = map (\<lambda>m. model_line (meta m)) order"
    using schema_lines_order [of meta models_list] by (simp add: visited_is_reached)
  have one: "count_list (schema_lines meta models_list) (model_line (meta c)) = 1"
    if "c \<in> reached meta models_list"
      and "\<forall>c' \<in> reached meta models_list. model_name (meta c') = model_name (meta c) \<longrightarrow> c' = c"
  proof -
    have "{c' \<in> reached meta models_list. model_name (meta c') = model_name (meta c)} = {c}"
      using that by auto
    then show ?thesis by (simp add: model_line_count)
  qed
  have lines_of_text: "split_pieces (get_models_schema meta models_list) ''\<newline>'' =
      schema_lines meta models_list"
    if "\<forall>l \<in> set (schema_lines meta models_list). CHR 0x0A \<notin> set l" and "models_list \<noteq> []"
    unfolding get_models_schema_def
    using that(1) schema_lines_not_empty [OF that(2)] by (rule split_pieces_join)
  have dom: "add_model_schema_add_fields_dom (Inl (meta, model, st))"
    using add_model_schema_terminates by blast
  have joined: "get_models_schema meta models_list =
      str_join ''\<newline>'' (schema_lines meta models_list)"
    by (simp add: get_models_schema_def)
  show ?thesis
    using dom joined order model_line_count [of meta models_list c] one lines_of_text
    by blast
qed

text \<open>
  \<open>Candidate\<close> relates to \<open>Stage\<close> and \<open>Stage\<close> to \<open>Candidate\<close>; the names differ.
\<close>

theorem every_reached_model_described_once_witness:
  "(ModelA, ModelB) \<in> relates hiring_meta \<and> (ModelB, ModelA) \<in> relates hiring_meta \<and>
   get_models_schema hiring_meta [ModelA] =
     ''Model: Candidate\<newline>  - id: AutoField\<newline>  - stage: ForeignKey to Stage (access via stage__field_name)\<newline>Model: Stage\<newline>  - candidate: ForeignKey to Candidate (access via candidate__field_name)\<newline>  - title: CharField\<newline>\<newline>'' \<and>
   count_list (schema_lines hiring_meta [ModelA]) ''Model: Candidate'' = 1 \<and>
   count_list (schema_lines hiring_meta [ModelA]) ''Model: Stage'' = 1 \<and>
   count_list (split_pieces (get_models_schema hiring_meta [ModelA]) ''\<newline>'') ''Model: Stage'' = 1"
proof -
  have ab: "(ModelA, ModelB) \<in> relates hiring_meta"
    and ba: "(ModelB, ModelA) \<in> relates hiring_meta"
    by (simp_all add: relates_def related_models_def relation_field_def plain_field_def)
  have a: "ModelA \<in> reached hiring_meta [ModelA]"
    by (simp add: reached_def)
  have b: "ModelB \<in> reached hiring_meta [ModelA]"
    using ab by (auto simp: reached_def)
  have u: "\<forall>c' \<in> reached hiring_meta [ModelA].
      model_name (hiring_meta c') = model_name (hiring_meta c) \<longrightarrow> c' = c" for c
    using injD [OF hiring_names_inj] by blast
  have lines: "schema_lines hiring_meta [ModelA] =
     [''Model: Candidate'', ''  - id: AutoField'',
      ''  - stage: ForeignKey to Stage (access via stage__field_name)'', ''Model: Stage'',
      ''  - candidate: ForeignKey to Candidate (access via candidate__field_name)'',
      ''  - title: CharField'', [], []]"
    by (simp add: example_defs)
  have nl: "\<forall>l \<in> set (schema_lines hiring_meta [ModelA]). CHR 0x0A \<notin> set l"
    unfolding lines by simp
  note t = every_reached_model_described_once [of hiring_meta ModelA initial_state "[ModelA]"]
  note once = t [THEN conjunct2, THEN conjunct2, THEN conjunct2, THEN conjunct2, THEN conjunct1]
  have 1: "count_list (schema_lines hiring_meta [ModelA]) (model_line (hiring_meta ModelA)) = 1"
    using once [of ModelA] a u [of ModelA] by (rule mp [OF _ conjI])
  have 2: "count_list (schema_lines hiring_meta [ModelA]) (model_line (hiring_meta ModelB)) = 1"
    using once [of ModelB] b u [of ModelB] by (rule mp [OF _ conjI])
  have ne: "[ModelA] \<noteq> []" by simp
  have 3: "split_pieces (get_models_schema hiring_meta [ModelA]) ''\<newline>'' =
      schema_lines hiring_meta [ModelA]"
    using t [of ModelA, THEN conjunct2, THEN conjunct2, THEN conjunct2, THEN conjunct2,
        THEN conjunct2] nl ne
    by (rule mp [OF _ conjI])
  have 4: "get_models_schema hiring_meta [ModelA] =
      str_join ''\<newline>'' (schema_lines hiring_meta [ModelA])"
    using t [of ModelA, THEN conjunct2, THEN conjunct1] .
  have 5: "get_models_schema hiring_meta [ModelA] =
     ''Model: Candidate\<newline>  - id: AutoField\<newline>  - stage: ForeignKey to Stage (access via stage__field_name)\<newline>Model: Stage\<newline>  - candidate: ForeignKey to Candidate (access via candidate__field_name)\<newline>  - title: CharField\<newline>\<newline>''"
    unfolding 4 lines by simp
  have names: "model_line (hiring_meta ModelA) = ''Model: Candidate''"
    "model_line (hiring_meta ModelB) = ''Model: Stage''"
    by (simp_all add: model_line_def)
  have 6: "count_list (split_pieces (get_models_schema hiring_meta [ModelA]) ''\<newline>'')
      ''Model: Stage'' = 1"
    unfolding 3 using 2 unfolding names .
  show ?thesis
    using ab ba 5 1 [unfolded names] 2 [unfolded names] 6 by (intro conjI)
qed

text \<open>
  The claim C3 wants the line of a generic foreign key to mention an object identifier.
  The line emitted for the field \<open>target\<close> of \<open>Note\<close> mentions \<open>ContentType\<close> and
  nothing of an object or an identifier.
\<close>

theorem generic_line_without_object_id:
  "schema_lines hiring_meta [ModelC] =
     [''Model: Note'', ''  - object_id: PositiveIntegerField'',
      ''  - target: GenericForeignKey (references any model via ContentType, use target__field_name for filtering)'',
      ''''] \<and>
   \<not> str_contains
       ''  - target: GenericForeignKey (references any model via ContentType, use target__field_name for filtering)''
       ''object'' \<and>
   \<not> str_contains
       ''  - target: GenericForeignKey (references any model via ContentType, use target__field_name for filtering)''
       ''id''"
  by (simp add: example_defs str_startswith_def)

text \<open>
  C3, as the code has it. For every field that is a generic foreign key, of every model
  that the relations reach from the input list, the output has the line of that field;
  the line names the field, says \<open>GenericForeignKey\<close>, mentions \<open>ContentType\<close> and
  gives the filter convention \<open>name__field_name\<close>. That is the whole line: beside the
  name of the field, nothing in it stands for an object identifier.
\<close>

theorem generic_field_line:
  assumes "m \<in> set models_list" and "(m, c) \<in> (relates meta)\<^sup>*"
    and "f \<in> set (get_fields (meta c))" and "is_generic_foreign_key f"
  shows "generic_line f \<in> set (schema_lines meta models_list) \<and>
         generic_line f =
           ''  - '' @ field_name f @
           '': GenericForeignKey (references any model via ContentType, use '' @
           field_name f @ ''__field_name for filtering)'' \<and>
         str_contains (generic_line f) ''ContentType'' \<and>
         str_contains (generic_line f) (field_name f @ ''__field_name'')"
proof -
  have "field_line meta f \<in> set (schema_lines meta models_list)"
    using assms(1-3) by (rule reachable_field_line)
  then have "generic_line f \<in> set (schema_lines meta models_list)"
    using assms(4) by (simp add: field_line_def)
  moreover have "str_contains (generic_line f) ''ContentType''"
    using str_contains_middle
      [of "''  - '' @ field_name f @ '': GenericForeignKey (references any model via ''"
          "''ContentType''" "'', use '' @ field_name f @ ''__field_name for filtering)''"]
    by (simp add: generic_line_def)
  moreover have "str_contains (generic_line f) (field_name f @ ''__field_name'')"
    using str_contains_middle
      [of "''  - '' @ field_name f @ '': GenericForeignKey (references any model via ContentType, use ''"
          "field_name f @ ''__field_name''" "'' for filtering)''"]
    by (simp add: generic_line_def)
  ultimately show ?thesis by (simp add: generic_line_def)
qed

text \<open>The generic foreign key of \<open>Note\<close>.\<close>

theorem generic_field_line_witness:
  "ModelC \<in> set [ModelA, ModelC] \<and>
   generic_field ''target'' \<in> set (get_fields (hiring_meta ModelC)) \<and>
   ''  - target: GenericForeignKey (references any model via ContentType, use target__field_name for filtering)''
     \<in> set (schema_lines hiring_meta [ModelA, ModelC])"
proof -
  have f: "generic_field ''target'' \<in> set (get_fields (hiring_meta ModelC))"
    by simp
  have g: "is_generic_foreign_key (generic_field ''target'' :: model_ref field)"
    by (simp add: generic_field_def)
  have m: "ModelC \<in> set [ModelA, ModelC]"
    by simp
  have r: "(ModelC, ModelC) \<in> (relates hiring_meta)\<^sup>*"
    by simp
  from generic_field_line [OF m r f g]
  have "generic_line (generic_field ''target'' :: model_ref field)
          \<in> set (schema_lines hiring_meta [ModelA, ModelC])"
    by blast
  then show ?thesis
    using f by (simp add: generic_line_def generic_field_def)
qed

text \<open>
  The claim C4 speaks of a fence with a language tag. With the tag \<open>py\<close> the fence is
  not recognised: the backticks go, the tag stays. With the tag \<open>python3\<close> the fence is
  taken for one with the tag \<open>python\<close>, and the \<open>3\<close> stays.
\<close>

theorem other_language_tag_kept:
  "(extract_query ''```py\<newline>Candidate.objects.all()\<newline>```'' :: string error + string) =
     Inr ''py\<newline>Candidate.objects.all()'' \<and>
   (extract_query ''```python3\<newline>Candidate.objects.all()\<newline>```'' :: string error + string) =
     Inr ''3\<newline>Candidate.objects.all()''"
  by (simp add: extract_query_def Let_def str_strip_def strip_where_def isspace_def
      str_startswith_def str_strip_chars_def str_split_def list_index_def)

text \<open>
  C4, as the code has it. The reply is trimmed first. A trimmed reply that starts with
  \<open>```python\<close> gives the text after this marker up to the next \<open>```python\<close>, cut at its
  first \<open>```\<close>, trimmed. So when the trimmed reply is \<open>```python\<close>, an inner text, \<open>```\<close>
  and any rest, where no \<open>```\<close> starts in the inner text and the rest does not go on with
  \<open>`python\<close> or \<open>``python\<close>, the result is the inner text, trimmed. A trimmed reply that
  starts with a backtick and not with \<open>```python\<close> loses all backticks at its two ends
  and is trimmed again; so an inner text between two single backticks, with no backtick
  at its own ends, is the result, trimmed. A trimmed reply that does not start with a
  backtick is the result as it is. The extraction never raises.
\<close>

theorem fence_extraction_rules:
  "(str_startswith (str_strip reply) ''```python'' \<longrightarrow>
      extract_query reply =
        Inr (str_strip (before_first
          (before_first (drop (length ''```python'') (str_strip reply)) ''```python'')
          ''```''))) \<and>
   (str_strip reply = ''```python'' @ inner @ ''```'' @ rest \<and>
    \<not> str_contains (inner @ ''``'') ''```'' \<and>
    \<not> str_startswith rest ''`python'' \<and> \<not> str_startswith rest ''``python'' \<longrightarrow>
      extract_query reply = Inr (str_strip inner)) \<and>
   (str_strip reply = ''`'' @ inner @ ''`'' \<and>
    (inner = [] \<or> (hd inner \<noteq> CHR 0x60 \<and> last inner \<noteq> CHR 0x60)) \<longrightarrow>
      extract_query reply = Inr (str_strip inner)) \<and>
   (str_startswith (str_strip reply) ''`'' \<and> \<not> str_startswith (str_strip reply) ''```python'' \<longrightarrow>
      extract_query reply = Inr (str_strip (str_strip_chars (str_strip reply) ''`''))) \<and>
   (\<not> str_startswith (str_strip reply) ''`'' \<longrightarrow> extract_query reply = Inr (str_strip reply)) \<and>
   (\<exists>q. extract_query reply = Inr q)"
proof -
  have "\<not> str_startswith (str_strip reply) ''```python''"
    if "\<not> str_startswith (str_strip reply) ''`''"
    using that by (cases "str_strip reply") (auto simp: str_startswith_def)
  then have plain: "extract_query reply = Inr (str_strip reply)"
    if "\<not> str_startswith (str_strip reply) ''`''"
    using that by (simp add: extract_query_def Let_def)
  have ticks: "extract_query reply = Inr (str_strip (str_strip_chars (str_strip reply) ''`''))"
    if "str_startswith (str_strip reply) ''`''"
      and "\<not> str_startswith (str_strip reply) ''```python''"
    using that by (simp add: extract_query_def Let_def)
  show ?thesis
    using extract_query_open_fence [of reply] extract_query_wrapped [of reply inner rest]
      extract_query_inline [of reply inner] ticks plain extract_query_returns [of reply]
    by blast
qed

text \<open>
  A fenced reply with the tag \<open>python\<close>, white space before it and a sentence after it.
\<close>

theorem fence_extraction_rules_witness:
  "str_strip ''  ```python\<newline>Candidate.objects.all()\<newline>```\<newline>This lists all candidates.\<newline>'' =
     ''```python'' @ ''\<newline>Candidate.objects.all()\<newline>'' @ ''```'' @
     ''\<newline>This lists all candidates.'' \<and>
   \<not> str_contains (''\<newline>Candidate.objects.all()\<newline>'' @ ''``'') ''```'' \<and>
   (extract_query
      ''  ```python\<newline>Candidate.objects.all()\<newline>```\<newline>This lists all candidates.\<newline>''
      :: string error + string) = Inr ''Candidate.objects.all()''"
proof -
  have c: "\<not> str_contains (''\<newline>Candidate.objects.all()\<newline>'' @ ''``'') ''```''"
    by (simp add: str_startswith_def)
  have r: "\<not> str_startswith ''\<newline>This lists all candidates.'' ''`python''"
    "\<not> str_startswith ''\<newline>This lists all candidates.'' ''``python''"
    by (simp_all add: str_startswith_def)
  note t = fence_extraction_rules
    [of "''  ```python\<newline>Candidate.objects.all()\<newline>```\<newline>This lists all candidates.\<newline>''"
        "''\<newline>Candidate.objects.all()\<newline>''" "''\<newline>This lists all candidates.''",
     THEN conjunct2, THEN conjunct1]
  have "(extract_query
      ''  ```python\<newline>Candidate.objects.all()\<newline>```\<newline>This lists all candidates.\<newline>''
      :: string error + string) = Inr (str_strip ''\<newline>Candidate.objects.all()\<newline>'')"
    using t strip_prose_example(1) c r by (rule mp [OF _ conjI [OF _ conjI [OF _ conjI]]])
  then show ?thesis
    using c strip_prose_example by (simp only: simp_thms)
qed

text \<open>
  The claim C5 has the error raised whenever the text is no expression. The text that
  the docstring of \<open>nl_to_orm\<close> gives as an example of its result, an import statement
  and a query, is no expression; it is a module, and with validation on it is returned.
\<close>

theorem module_text_passes_validation:
  "example_parse
     ''from django.db.models import Q, F; Candidate.objects.filter(Q(score__gt=F('attempts')))''
     Eval = (SyntaxError ''invalid syntax (<unknown>, line 1)'' :: string parse_result) \<and>
   nl_to_orm no_format
     (canned_chat
        ''from django.db.models import Q, F; Candidate.objects.filter(Q(score__gt=F('attempts')))'')
     example_parse hiring_meta (Single ModelA) ''candidates with score above attempts''
     ''mistral:instruct'' None (0.2 :: real) 500 True =
   Inr ''from django.db.models import Q, F; Candidate.objects.filter(Q(score__gt=F('attempts')))''"
proof -
  let ?q = "''from django.db.models import Q, F; Candidate.objects.filter(Q(score__gt=F('attempts')))''"
  have e: "example_parse ?q Eval =
      (SyntaxError ''invalid syntax (<unknown>, line 1)'' :: string parse_result)"
    by (simp add: example_parse_def str_startswith_def)
  have p: "example_parse ?q Exec = (Parsed :: string parse_result)"
    by (simp add: example_parse_def)
  have s: "str_strip ?q = ?q"
    by (simp add: str_strip_def strip_where_def isspace_def)
  have x: "(extract_query ?q :: string error + string) = Inr ?q"
    using extract_unfenced [of ?q] unfolding s by (simp add: str_startswith_def)
  have 1: "as_list (Single ModelA) = ModelA # []"
    by (simp add: as_list_def)
  have 2: "build_system_prompt no_format None
      (get_models_schema hiring_meta (as_list (Single ModelA)))
      ''candidates with score above attempts'' (model_name (hiring_meta ModelA)) =
      Inr (default_system_prompt (get_models_schema hiring_meta (as_list (Single ModelA)))
             (model_name (hiring_meta ModelA)))"
    by (simp add: build_system_prompt_def)
  have 3: "canned_chat ?q ''mistral:instruct''
      (chat_messages
         (default_system_prompt (get_models_schema hiring_meta (as_list (Single ModelA)))
            (model_name (hiring_meta ModelA)))
         ''candidates with score above attempts'')
      \<lparr>temperature = (0.2 :: real), num_predict = 500\<rparr> =
      (Inr \<lparr>message = \<lparr>role = ''assistant'', content = ?q\<rparr>\<rparr> :: string + chat_response)"
    by (simp add: canned_chat_def)
  have 4: "(extract_query (content (message
      \<lparr>message = \<lparr>role = ''assistant'', content = ?q\<rparr>\<rparr>)) :: string error + string) =
      Inr ?q"
    using x by simp
  have "nl_to_orm no_format (canned_chat ?q) example_parse hiring_meta (Single ModelA)
      ''candidates with score above attempts'' ''mistral:instruct'' None (0.2 :: real) 500 True =
      check_and_return example_parse True ?q"
    by (rule nl_to_orm_after_reply
         [where chat = "canned_chat ?q" and ollama_model = "''mistral:instruct''",
          OF 1 2 3 4])
  also have "\<dots> = Inr ?q"
    by (simp only: check_and_return_def p if_True parse_result.case)
  finally show ?thesis
    using e by (intro conjI)
qed

text \<open>
  C5, as the code has it. The parser is the parameter \<open>ast_parse\<close>, called in the mode
  \<open>'exec'\<close>. When the request has been built and answered and validation is on: if the
  parser raises \<open>SyntaxError\<close> on the extracted text, \<open>nl_to_orm\<close> raises the
  \<open>ValueError\<close> whose message is \<open>Invalid query syntax: \<close>, the text of the parser's
  error, a line break, \<open>Query: \<close> and the whole extracted text, so the message contains
  both; if the parser accepts the text as a module, the text is returned, expression or
  not.
\<close>

theorem syntax_error_raises_value_error:
  fixes str_format :: "string \<Rightarrow> (string \<times> string) list \<Rightarrow> 'e + string"
    and chat :: "string \<Rightarrow> chat_message list \<Rightarrow> 'f chat_options \<Rightarrow> 'e + chat_response"
    and ast_parse :: "string \<Rightarrow> parse_mode \<Rightarrow> 'e parse_result"
    and meta :: "'m::finite \<Rightarrow> 'm model_meta"
  assumes "as_list models = first_model # others"
    and "build_system_prompt str_format custom_system_prompt
           (get_models_schema meta (as_list models)) nl_query
           (model_name (meta first_model)) = Inr system_prompt"
    and "chat ollama_model (chat_messages system_prompt nl_query)
           \<lparr>temperature = temp, num_predict = max_tokens\<rparr> = Inr response"
    and "(extract_query (content (message response)) :: 'e error + string) = Inr generated_query"
  shows "(ast_parse generated_query Exec = SyntaxError diagnostic \<longrightarrow>
           nl_to_orm str_format chat ast_parse meta models nl_query ollama_model
             custom_system_prompt temp max_tokens True =
           Inl (ValueError (''Invalid query syntax: '' @ diagnostic @ ''\<newline>Query: '' @
                  generated_query)) \<and>
           str_contains (''Invalid query syntax: '' @ diagnostic @ ''\<newline>Query: '' @
                  generated_query) diagnostic \<and>
           str_contains (''Invalid query syntax: '' @ diagnostic @ ''\<newline>Query: '' @
                  generated_query) generated_query) \<and>
         (ast_parse generated_query Exec = Parsed \<longrightarrow>
           nl_to_orm str_format chat ast_parse meta models nl_query ollama_model
             custom_system_prompt temp max_tokens True = Inr generated_query)"
proof -
  have r: "nl_to_orm str_format chat ast_parse meta models nl_query ollama_model
           custom_system_prompt temp max_tokens True =
        check_and_return ast_parse True generated_query"
    using assms(1-4) by (rule nl_to_orm_after_reply)
  have raised: "nl_to_orm str_format chat ast_parse meta models nl_query ollama_model
           custom_system_prompt temp max_tokens True =
         Inl (ValueError (''Invalid query syntax: '' @ diagnostic @ ''\<newline>Query: '' @
                generated_query))"
    if "ast_parse generated_query Exec = SyntaxError diagnostic"
    unfolding r using that by (simp add: check_and_return_def invalid_syntax_message_def)
  have returned: "nl_to_orm str_format chat ast_parse meta models nl_query ollama_model
           custom_system_prompt temp max_tokens True = Inr generated_query"
    if "ast_parse generated_query Exec = Parsed"
    unfolding r using that by (simp add: check_and_return_def)
  have d: "str_contains (''Invalid query syntax: '' @ diagnostic @ ''\<newline>Query: '' @
                generated_query) diagnostic"
    by (rule str_contains_middle)
  have q: "str_contains (''Invalid query syntax: '' @ diagnostic @ ''\<newline>Query: '' @
                generated_query) generated_query"
    using str_contains_middle
      [of "''Invalid query syntax: '' @ diagnostic @ ''\<newline>Query: ''" generated_query "[]"]
    by simp
  show ?thesis
    using raised returned d q by blast
qed

text \<open>
  The reply \<open>Candidate.objects.filter(score__gt=5\<close>, with the parenthesis left open,
  and the default arguments.
\<close>

theorem syntax_error_raises_value_error_witness:
  "nl_to_orm no_format (canned_chat ''Candidate.objects.filter(score__gt=5'') example_parse
      hiring_meta (Single ModelA) ''candidates with score above 5'' ''mistral:instruct''
      None (0.2 :: real) 500 True =
   Inl (ValueError
     ''Invalid query syntax: '(' was never closed (<unknown>, line 1)\<newline>Query: Candidate.objects.filter(score__gt=5'')"
proof -
  have 1: "as_list (Single ModelA) = ModelA # []"
    by (simp add: as_list_def)
  have 2: "build_system_prompt no_format None
      (get_models_schema hiring_meta (as_list (Single ModelA)))
      ''candidates with score above 5'' (model_name (hiring_meta ModelA)) =
      Inr (default_system_prompt (get_models_schema hiring_meta (as_list (Single ModelA)))
             (model_name (hiring_meta ModelA)))"
    by (simp add: build_system_prompt_def)
  have 3: "canned_chat ''Candidate.objects.filter(score__gt=5'' ''mistral:instruct''
      (chat_messages
         (default_system_prompt (get_models_schema hiring_meta (as_list (Single ModelA)))
            (model_name (hiring_meta ModelA)))
         ''candidates with score above 5'')
      \<lparr>temperature = (0.2 :: real), num_predict = 500\<rparr> =
      (Inr \<lparr>message = \<lparr>role = ''assistant'',
                         content = ''Candidate.objects.filter(score__gt=5''\<rparr>\<rparr>
        :: string + chat_response)"
    by (simp add: canned_chat_def)
  have 4: "(extract_query (content (message
      \<lparr>message = \<lparr>role = ''assistant'',
                   content = ''Candidate.objects.filter(score__gt=5''\<rparr>\<rparr>))
        :: string error + string) = Inr ''Candidate.objects.filter(score__gt=5''"
    using extract_example by simp
  note t = syntax_error_raises_value_error
    [where chat = "canned_chat ''Candidate.objects.filter(score__gt=5''"
       and ast_parse = example_parse and ollama_model = "''mistral:instruct''",
     OF 1 2 3 4, THEN conjunct1]
  from mp [OF t parse_example] show ?thesis by simp
qed

text \<open>
  C6. When the request has been built and answered, \<open>nl_to_orm\<close> raises its
  \<open>ValueError\<close> if and only if validation is on and the parser raises \<open>SyntaxError\<close> on
  the extracted text. With validation off the result is the extracted text, which always
  exists, whatever the parser would say of it.
\<close>

theorem validation_error_iff:
  fixes str_format :: "string \<Rightarrow> (string \<times> string) list \<Rightarrow> 'e + string"
    and chat :: "string \<Rightarrow> chat_message list \<Rightarrow> 'f chat_options \<Rightarrow> 'e + chat_response"
    and ast_parse :: "string \<Rightarrow> parse_mode \<Rightarrow> 'e parse_result"
    and meta :: "'m::finite \<Rightarrow> 'm model_meta"
  assumes "as_list models = first_model # others"
    and "build_system_prompt str_format custom_system_prompt
           (get_models_schema meta (as_list models)) nl_query
           (model_name (meta first_model)) = Inr system_prompt"
    and "chat ollama_model (chat_messages system_prompt nl_query)
           \<lparr>temperature = temp, num_predict = max_tokens\<rparr> = Inr response"
  shows "((\<exists>msg. nl_to_orm str_format chat ast_parse meta models nl_query ollama_model
                   custom_system_prompt temp max_tokens validate_code =
                 Inl (ValueError msg)) \<longleftrightarrow>
          (validate_code \<and>
           (\<exists>q d. (extract_query (content (message response)) :: 'e error + string) = Inr q \<and>
                   ast_parse q Exec = SyntaxError d))) \<and>
         (\<not> validate_code \<longrightarrow>
            nl_to_orm str_format chat ast_parse meta models nl_query ollama_model
              custom_system_prompt temp max_tokens validate_code =
            extract_query (content (message response)) \<and>
            (\<exists>q. (extract_query (content (message response)) :: 'e error + string) = Inr q))"
proof -
  obtain q where q: "(extract_query (content (message response)) :: 'e error + string) = Inr q"
    using extract_query_returns by blast
  have r: "nl_to_orm str_format chat ast_parse meta models nl_query ollama_model
           custom_system_prompt temp max_tokens validate_code =
         check_and_return ast_parse validate_code q"
    using assms q by (rule nl_to_orm_after_reply)
  show ?thesis
    unfolding r q
    by (cases "ast_parse q Exec") (auto simp: check_and_return_def)
qed

text \<open>
  Validation off: a reply in inline-code markers that the parser of the example rejects
  is returned without the markers.
\<close>

theorem validation_error_iff_witness:
  "example_parse ''Candidate.objects.filter(score__gt=5'' Exec =
     (SyntaxError '''(' was never closed (<unknown>, line 1)'' :: string parse_result) \<and>
   nl_to_orm no_format (canned_chat ''`Candidate.objects.filter(score__gt=5`'') example_parse
      hiring_meta (Single ModelA) ''candidates with score above 5'' ''mistral:instruct''
      None (0.2 :: real) 500 False =
   Inr ''Candidate.objects.filter(score__gt=5''"
proof -
  have 1: "as_list (Single ModelA) = ModelA # []"
    by (simp add: as_list_def)
  have 2: "build_system_prompt no_format None
      (get_models_schema hiring_meta (as_list (Single ModelA)))
      ''candidates with score above 5'' (model_name (hiring_meta ModelA)) =
      Inr (default_system_prompt (get_models_schema hiring_meta (as_list (Single ModelA)))
             (model_name (hiring_meta ModelA)))"
    by (simp add: build_system_prompt_def)
  have 3: "canned_chat ''`Candidate.objects.filter(score__gt=5`'' ''mistral:instruct''
      (chat_messages
         (default_system_prompt (get_models_schema hiring_meta (as_list (Single ModelA)))
            (model_name (hiring_meta ModelA)))
         ''candidates with score above 5'')
      \<lparr>temperature = (0.2 :: real), num_predict = 500\<rparr> =
      (Inr \<lparr>message = \<lparr>role = ''assistant'',
                         content = ''`Candidate.objects.filter(score__gt=5`''\<rparr>\<rparr>
        :: string + chat_response)"
    by (simp add: canned_chat_def)
  have 4: "(extract_query ''`Candidate.objects.filter(score__gt=5`'' :: string error + string) =
     Inr ''Candidate.objects.filter(score__gt=5''"
    by (simp add: extract_query_def Let_def str_strip_def strip_where_def isspace_def
        str_startswith_def str_strip_chars_def)
  from validation_error_iff
    [where chat = "canned_chat ''`Candidate.objects.filter(score__gt=5`''"
       and ast_parse = example_parse and ollama_model = "''mistral:instruct''"
       and validate_code = False,
     OF 1 2 3]
  have "nl_to_orm no_format (canned_chat ''`Candidate.objects.filter(score__gt=5`'')
      example_parse hiring_meta (Single ModelA) ''candidates with score above 5''
      ''mistral:instruct'' None (0.2 :: real) 500 False =
      extract_query ''`Candidate.objects.filter(score__gt=5`''"
    by simp
  with 4 parse_example show ?thesis
    by simp
qed

text \<open>
  C7. For a list of models none of whose fields is a relation, generic or not, the lines
  of the output are, for each model of the list in the order of the list, each model
  where it occurs first: the line \<open>Model: \<close> and the name, one line per field with the
  name and the internal type of the field, and one empty line. The text is these lines
  joined by line breaks.
\<close>

theorem models_without_relations:
  assumes "\<forall>m \<in> set models_list. plain_model meta m"
  shows "schema_lines meta models_list =
           concat (map (model_block meta) (first_occurrences models_list)) \<and>
         get_models_schema meta models_list =
           str_join ''\<newline>'' (concat (map (model_block meta) (first_occurrences models_list))) \<and>
         (distinct models_list \<longrightarrow> first_occurrences models_list = models_list)"
  using assms
  by (simp add: get_models_schema_def schema_lines_def fold_plain initial_state_def
      first_occurrences_distinct)

text \<open>Two models of the catalogue, one of them twice in the list.\<close>

theorem models_without_relations_witness:
  "plain_model catalog_meta ModelB \<and> plain_model catalog_meta ModelA \<and>
   get_models_schema catalog_meta [ModelB, ModelA, ModelB] =
     ''Model: Book\<newline>  - title: CharField\<newline>\<newline>Model: Author\<newline>  - id: AutoField\<newline>  - name: CharField\<newline>''"
proof -
  have p: "\<forall>m \<in> set [ModelB, ModelA, ModelB]. plain_model catalog_meta m"
    by (simp add: plain_model_def plain_field_def)
  from models_without_relations [OF p] show ?thesis
    using p by (simp add: model_block_def model_line_def plain_line_def plain_field_def)
qed

text \<open>
  C8. Whatever the other arguments and the library calls do, \<open>nl_to_orm\<close> called with one
  model \<open>M\<close> gives the result, value or exception, that it gives with the list \<open>[M]\<close>.
\<close>

theorem single_model_as_one_element_list:
  "nl_to_orm str_format chat ast_parse meta (Single M) nl_query ollama_model
       custom_system_prompt temp max_tokens validate_code =
   nl_to_orm str_format chat ast_parse meta (Many [M]) nl_query ollama_model
       custom_system_prompt temp max_tokens validate_code"
  by (simp add: nl_to_orm_def as_list_def)

text \<open>
  C9. On the empty list of models the schema describer returns the empty string: no
  line at all, not even the empty separator line.
\<close>

theorem schema_of_no_models:
  "schema_lines meta [] = [] \<and> get_models_schema meta [] = []"
  by (simp add: get_models_schema_def schema_lines_def initial_state_def)




end
